theory Spec2Isabelle
  imports
    Complex_Main
    "HOL-Library.Word"
    "HOL-Library.Finite_Map"
    "HOL-Library.Log_Nat"
    "HOL-Library.Char_ord"
    "HOL-Library.List_Lexorder"
begin

unbundle bit_operations_syntax

section \<open>The sharded key-value engine of quache-go (core/core.go)\<close>

text \<open>
  The embedding follows \<^verbatim>\<open>quache-go/core/core.go\<close>. Locks are left out: every
  operation is modelled as one atomic step of a sequential execution. The wall clock
  (\<^verbatim>\<open>time.Now().UnixMilli()\<close>) is an explicit argument of each operation that reads it.
  Go strings and byte slices are \<^typ>\<open>string\<close> (a list of 8-bit characters).
\<close>

subsection \<open>Values of type float64\<close>

text \<open>
  A binary64 value is a finite number \<open>m * 2 ^ e\<close>, an infinity or NaN. Every finite
  binary64 number has such a pair with \<open>\<bar>m\<bar> < 2 ^ 53\<close> and \<open>- 1074 \<le> e \<le> 971\<close>; the
  two zeros are not told apart (they compare equal in Go).
\<close>

datatype float64 = Finite int int | PosInf | NegInf | NaN

definition valof :: "int \<Rightarrow> int \<Rightarrow> real" where
  "valof m e = real_of_int m * 2 powi e"

text \<open>Go's \<^verbatim>\<open>x > y\<close> and \<^verbatim>\<open>x <= y\<close> on float64: false whenever an operand is NaN.\<close>

fun f64_gt :: "float64 \<Rightarrow> float64 \<Rightarrow> bool" where
  "f64_gt NaN y = False"
| "f64_gt x NaN = False"
| "f64_gt x PosInf = False"
| "f64_gt PosInf y = True"
| "f64_gt NegInf y = False"
| "f64_gt x NegInf = True"
| "f64_gt (Finite m e) (Finite m' e') = (valof m' e' < valof m e)"

fun f64_le :: "float64 \<Rightarrow> float64 \<Rightarrow> bool" where
  "f64_le NaN y = False"
| "f64_le x NaN = False"
| "f64_le x PosInf = True"
| "f64_le PosInf y = False"
| "f64_le NegInf y = True"
| "f64_le x NegInf = False"
| "f64_le (Finite m e) (Finite m' e') = (valof m e \<le> valof m' e')"

text \<open>
  Rounding of the exact value \<open>n * 2 ^ e\<close> to binary64, to nearest with ties to even:
  53 bits of precision, least exponent \<open>- 1074\<close>, overflow to an infinity from \<open>2 ^ 1024\<close> on.
\<close>

definition f64_round :: "int \<Rightarrow> int \<Rightarrow> float64" where
  "f64_round n e =
     (let a = \<bar>n\<bar>;
          k = max (bitlen a - 53) (- 1074 - e);
          q = a div 2 ^ nat k;
          r = a mod 2 ^ nat k;
          h = 2 ^ nat (k - 1);
          q' = (if k \<le> 0 then a else if h < r \<or> (r = h \<and> odd q) then q + 1 else q);
          e' = (if k \<le> 0 then e else e + k)
      in if q' \<noteq> 0 \<and> 1024 < bitlen q' + e' then (if n < 0 then NegInf else PosInf)
         else Finite (sgn n * q') e')"

text \<open>The conversion \<^verbatim>\<open>float64(x)\<close> of an int64.\<close>

definition f64_of_int64 :: "64 word \<Rightarrow> float64" where
  "f64_of_int64 x = f64_round (sint x) 0"

fun f64_sgn :: "float64 \<Rightarrow> int" where
  "f64_sgn (Finite m e) = sgn m"
| "f64_sgn PosInf = 1"
| "f64_sgn NegInf = - 1"
| "f64_sgn NaN = 0"

text \<open>The product \<^verbatim>\<open>x * y\<close> of two float64 values.\<close>

fun f64_mul :: "float64 \<Rightarrow> float64 \<Rightarrow> float64" where
  "f64_mul NaN y = NaN"
| "f64_mul x NaN = NaN"
| "f64_mul (Finite m e) (Finite m' e') = f64_round (m * m') (e + e')"
| "f64_mul x y =
     (let s = f64_sgn x * f64_sgn y
      in if s = 0 then NaN else if 0 < s then PosInf else NegInf)"

abbreviation f64_zero :: float64 where
  "f64_zero \<equiv> Finite 0 0"

subsection \<open>Library functions the engine calls\<close>

text \<open>
  \<^verbatim>\<open>crc32.ChecksumIEEE\<close>: the CRC-32 of IEEE 802.3, bit by bit (reflected polynomial
  \<open>0xEDB88320\<close>, initial value and final complement \<open>0xFFFFFFFF\<close>).
\<close>

definition crc32_shift :: "32 word \<Rightarrow> 32 word" where
  "crc32_shift c = (if bit c 0 then drop_bit 1 c XOR 0xEDB88320 else drop_bit 1 c)"

definition crc32_byte :: "32 word \<Rightarrow> char \<Rightarrow> 32 word" where
  "crc32_byte c b = (crc32_shift ^^ 8) (c XOR of_char b)"

definition ChecksumIEEE :: "string \<Rightarrow> 32 word" where
  "ChecksumIEEE bs = foldl crc32_byte 0xFFFFFFFF bs XOR 0xFFFFFFFF"

text \<open>
  \<^verbatim>\<open>md5.Sum\<close>: the MD5 message digest of RFC 1321. The message is padded to a multiple
  of 64 bytes and read as little-endian 32-bit words; each block goes through 64 steps.
\<close>

definition md5_K :: "32 word list" where
  "md5_K =
    [0xd76aa478, 0xe8c7b756, 0x242070db, 0xc1bdceee, 0xf57c0faf, 0x4787c62a, 0xa8304613,
     0xfd469501, 0x698098d8, 0x8b44f7af, 0xffff5bb1, 0x895cd7be, 0x6b901122, 0xfd987193,
     0xa679438e, 0x49b40821, 0xf61e2562, 0xc040b340, 0x265e5a51, 0xe9b6c7aa, 0xd62f105d,
     0x02441453, 0xd8a1e681, 0xe7d3fbc8, 0x21e1cde6, 0xc33707d6, 0xf4d50d87, 0x455a14ed,
     0xa9e3e905, 0xfcefa3f8, 0x676f02d9, 0x8d2a4c8a, 0xfffa3942, 0x8771f681, 0x6d9d6122,
     0xfde5380c, 0xa4beea44, 0x4bdecfa9, 0xf6bb4b60, 0xbebfbc70, 0x289b7ec6, 0xeaa127fa,
     0xd4ef3085, 0x04881d05, 0xd9d4d039, 0xe6db99e5, 0x1fa27cf8, 0xc4ac5665, 0xf4292244,
     0x432aff97, 0xab9423a7, 0xfc93a039, 0x655b59c3, 0x8f0ccc92, 0xffeff47d, 0x85845dd1,
     0x6fa87e4f, 0xfe2ce6e0, 0xa3014314, 0x4e0811a1, 0xf7537e82, 0xbd3af235, 0x2ad7d2bb,
     0xeb86d391]"

definition md5_s :: "nat list" where
  "md5_s =
    [7, 12, 17, 22, 7, 12, 17, 22, 7, 12, 17, 22, 7, 12, 17, 22,
     5, 9, 14, 20, 5, 9, 14, 20, 5, 9, 14, 20, 5, 9, 14, 20,
     4, 11, 16, 23, 4, 11, 16, 23, 4, 11, 16, 23, 4, 11, 16, 23,
     6, 10, 15, 21, 6, 10, 15, 21, 6, 10, 15, 21, 6, 10, 15, 21]"

definition md5_g :: "nat list" where
  "md5_g =
    [0, 1, 2, 3, 4, 5, 6, 7, 8, 9, 10, 11, 12, 13, 14, 15,
     1, 6, 11, 0, 5, 10, 15, 4, 9, 14, 3, 8, 13, 2, 7, 12,
     5, 8, 11, 14, 1, 4, 7, 10, 13, 0, 3, 6, 9, 12, 15, 2,
     0, 7, 14, 5, 12, 3, 10, 1, 8, 15, 6, 13, 4, 11, 2, 9]"

definition rotl32 :: "32 word \<Rightarrow> nat \<Rightarrow> 32 word" where
  "rotl32 x n = push_bit n x OR drop_bit (32 - n) x"

type_synonym md5_state = "32 word \<times> 32 word \<times> 32 word \<times> 32 word"

definition md5_mix :: "nat \<Rightarrow> 32 word \<Rightarrow> 32 word \<Rightarrow> 32 word \<Rightarrow> 32 word" where
  "md5_mix i b c d =
     (if i < 16 then (b AND c) OR (NOT b AND d)
      else if i < 32 then (d AND b) OR (NOT d AND c)
      else if i < 48 then b XOR c XOR d
      else c XOR (b OR NOT d))"

definition md5_step :: "32 word list \<Rightarrow> md5_state \<Rightarrow> nat \<Rightarrow> md5_state" where
  "md5_step m st i =
     (case st of (a, b, c, d) \<Rightarrow>
        (d, b + rotl32 (md5_mix i b c d + a + md5_K ! i + m ! (md5_g ! i)) (md5_s ! i), b, c))"

definition le32 :: "8 word list \<Rightarrow> 32 word" where
  "le32 bs = ucast (bs ! 0) OR push_bit 8 (ucast (bs ! 1)) OR push_bit 16 (ucast (bs ! 2))
             OR push_bit 24 (ucast (bs ! 3))"

definition md5_block :: "md5_state \<Rightarrow> 8 word list \<Rightarrow> md5_state" where
  "md5_block st blk =
     (let m = map (\<lambda>j. le32 (take 4 (drop (4 * j) blk))) [0..<16]
      in case (st, foldl (md5_step m) st [0..<64]) of
           ((a0, b0, c0, d0), (a, b, c, d)) \<Rightarrow> (a0 + a, b0 + b, c0 + c, d0 + d))"

fun md5_blocks :: "md5_state \<Rightarrow> 8 word list \<Rightarrow> md5_state" where
  "md5_blocks st bs =
     (if length bs < 64 then st else md5_blocks (md5_block st (take 64 bs)) (drop 64 bs))"

declare md5_blocks.simps [simp del]

definition bytes32 :: "32 word \<Rightarrow> 8 word list" where
  "bytes32 w = [ucast w, ucast (drop_bit 8 w), ucast (drop_bit 16 w), ucast (drop_bit 24 w)]"

definition md5_pad :: "8 word list \<Rightarrow> 8 word list" where
  "md5_pad bs =
     (let n = length bs;
          bits = (word_of_nat (8 * n) :: 64 word)
      in bs @ [0x80] @ replicate ((119 - n mod 64) mod 64) 0
         @ map (\<lambda>j. ucast (drop_bit (8 * j) bits)) [0..<8])"

definition md5_Sum :: "string \<Rightarrow> 8 word list" where
  "md5_Sum msg =
     (case md5_blocks (0x67452301, 0xefcdab89, 0x98badcfe, 0x10325476)
             (md5_pad (map of_char msg)) of
        (a, b, c, d) \<Rightarrow> bytes32 a @ bytes32 b @ bytes32 c @ bytes32 d)"

text \<open>
  The 64 steps with their constant, shift amount and message-word index side by side;
  \<open>md5_step'\<close> is \<open>md5_step\<close> on a row of this table (\<open>md5_rounds_table\<close> below).
\<close>

definition md5_table :: "(nat \<times> 32 word \<times> nat \<times> nat) list" where
  "md5_table = zip [0..<64] (zip md5_K (zip md5_s md5_g))"

definition md5_step' ::
  "32 word list \<Rightarrow> md5_state \<Rightarrow> nat \<times> 32 word \<times> nat \<times> nat \<Rightarrow> md5_state" where
  "md5_step' m st x =
     (case (st, x) of ((a, b, c, d), (i, k, s, g)) \<Rightarrow>
        (d, b + rotl32 (md5_mix i b c d + a + k + m ! g) s, b, c))"

text \<open>\<^verbatim>\<open>hex.EncodeToString\<close> and \<^verbatim>\<open>hex.DecodeString\<close>.\<close>

definition hextable :: string where
  "hextable = ''0123456789abcdef''"

definition hex_EncodeToString :: "8 word list \<Rightarrow> string" where
  "hex_EncodeToString src =
     concat (map (\<lambda>v. [hextable ! (unat v div 16), hextable ! (unat v mod 16)]) src)"

definition fromHexChar :: "char \<Rightarrow> nat option" where
  "fromHexChar c =
     (let n = of_char c :: nat
      in if 48 \<le> n \<and> n \<le> 57 then Some (n - 48)
         else if 97 \<le> n \<and> n \<le> 102 then Some (n - 97 + 10)
         else if 65 \<le> n \<and> n \<le> 70 then Some (n - 65 + 10)
         else None)"

datatype hex_error = ErrLength | InvalidByteError char

fun hex_DecodeString :: "string \<Rightarrow> hex_error + 8 word list" where
  "hex_DecodeString [] = Inr []"
| "hex_DecodeString [c] =
     (case fromHexChar c of None \<Rightarrow> Inl (InvalidByteError c) | Some a \<Rightarrow> Inl ErrLength)"
| "hex_DecodeString (p # q # cs) =
     (case fromHexChar p of
        None \<Rightarrow> Inl (InvalidByteError p)
      | Some a \<Rightarrow>
         (case fromHexChar q of
            None \<Rightarrow> Inl (InvalidByteError q)
          | Some b \<Rightarrow>
             (case hex_DecodeString cs of
                Inl err \<Rightarrow> Inl err
              | Inr bs \<Rightarrow> Inr (word_of_nat (a * 16 + b) # bs))))"

text \<open>\<^verbatim>\<open>strings.Split(s, "\n")\<close> and \<^verbatim>\<open>strings.Join(lines, "\n")\<close>.\<close>

abbreviation newline :: char where
  "newline \<equiv> CHR 0x0A"

fun strings_Split :: "string \<Rightarrow> string list" where
  "strings_Split [] = [[]]"
| "strings_Split (c # cs) =
     (if c = newline then [] # strings_Split cs
      else (case strings_Split cs of
              [] \<Rightarrow> [[c]]
            | l # ls \<Rightarrow> (c # l) # ls))"

fun strings_Join :: "string list \<Rightarrow> string" where
  "strings_Join [] = []"
| "strings_Join [l] = l"
| "strings_Join (l # ls) = l @ newline # strings_Join ls"

subsection \<open>Data model\<close>

record 'v ShardEntry =
  Value :: 'v
  Timestamp :: "64 word"
  Ttl :: float64

record 'v Shard =
  Data :: "(string, 'v ShardEntry) fmap"

record 'v KVStore =
  Shards :: "'v Shard list"
  Directory :: string
  shardDimensions :: "nat \<rightharpoonup> nat"

text \<open>
  \<open>errorType\<close> of an \<open>UnloadableShardError\<close> is the message of the library call that
  failed, or a fixed text for a digest mismatch; the model keeps which step failed.
\<close>

datatype load_failure =
    ReadFileFailed string
  | HexDecodeFailed hex_error
  | HashMismatch
  | UnmarshalFailed string

datatype error =
    KeyNotFoundError string
  | ExpiredEntryError string float64 "64 word"
  | UnloadableShardError nat load_failure
  | ExternalError string
  | RuntimePanic string

text \<open>
  \<^verbatim>\<open>json.Marshal\<close> and \<^verbatim>\<open>json.Unmarshal\<close> (package \<^verbatim>\<open>encoding/json\<close>), at the type of a
  shard's map, are parameters of the model: their code is not part of the repository.
  Either returns its error message or its result. The result of \<open>json_Unmarshal\<close> is a map
  of entries: the nil map and the nil entry that \<^verbatim>\<open>json.Unmarshal\<close> returns for the texts
  \<^verbatim>\<open>null\<close> and \<^verbatim>\<open>{"k":null}\<close> are not values of the model. \<open>Flush\<close> writes neither text for a
  store built by \<open>NewKVStore\<close> and \<open>Put\<close>: it marshals a non-empty map of entries that
  \<open>NewShardEntry\<close> made.
\<close>

record 'v jsonlib =
  json_Marshal :: "(string, 'v ShardEntry) fmap \<Rightarrow> string + string"
  json_Unmarshal :: "string \<Rightarrow> string + (string, 'v ShardEntry) fmap"

text \<open>
  The snapshot directory. A file is named by the store's directory and the shard index,
  standing for \<^verbatim>\<open>path.Join(directory, fmt.Sprintf("shard-%d", i))\<close>, the name \<open>ToDisk\<close> and
  \<open>NewKVStoreFromDisk\<close> both build: one directory string and one index name one file, and
  two indices name two files. \<^verbatim>\<open>path.Join\<close> cleans the path, so two directory strings may
  name the same files; the pair keeps them apart, and every property below is about one
  directory string. Each name is absent, unreadable or holds bytes; \<open>write_error\<close> is the
  error, if any, that \<^verbatim>\<open>os.WriteFile\<close> returns for a name.
\<close>

type_synonym filename = "string \<times> nat"

datatype file_state = NotExist | Unreadable string | Content string

record filesystem =
  file_at :: "filename \<Rightarrow> file_state"
  write_error :: "filename \<Rightarrow> string option"

definition os_WriteFile :: "filesystem \<Rightarrow> filename \<Rightarrow> string \<Rightarrow> error + filesystem" where
  "os_WriteFile fs fileName toWrite =
     (case write_error fs fileName of
        Some err \<Rightarrow> Inl (ExternalError err)
      | None \<Rightarrow> Inr (fs\<lparr>file_at := (file_at fs)(fileName := Content toWrite)\<rparr>))"

subsection \<open>Constructors\<close>

text \<open>\<open>NewShardEntry\<close> reads the clock; \<open>ts\<close> is the time it reads.\<close>

definition NewShardEntry :: "64 word \<Rightarrow> 'v \<Rightarrow> float64 \<Rightarrow> 'v ShardEntry" where
  "NewShardEntry ts v ttl = \<lparr>Value = v, Timestamp = ts, Ttl = ttl\<rparr>"

definition NewShard :: "'v Shard" where
  "NewShard = \<lparr>Data = fmempty\<rparr>"

definition NewShardWithData :: "(string, 'v ShardEntry) fmap \<Rightarrow> 'v Shard" where
  "NewShardWithData data = \<lparr>Data = data\<rparr>"

fun NewKVStore_loop :: "nat list \<Rightarrow> 'v KVStore \<Rightarrow> 'v KVStore" where
  "NewKVStore_loop [] c = c"
| "NewKVStore_loop (i # is) c =
     NewKVStore_loop is
       (c\<lparr>Shards := Shards c @ [NewShard],
          shardDimensions := (shardDimensions c)(i \<mapsto> 0)\<rparr>)"

text \<open>\<^verbatim>\<open>make([]*Shard, 0, numShards)\<close> panics on a negative capacity.\<close>

definition NewKVStore :: "int \<Rightarrow> string \<Rightarrow> error + 'v KVStore" where
  "NewKVStore numShards directory =
     (if numShards < 0 then Inl (RuntimePanic ''makeslice: cap out of range'')
      else Inr (NewKVStore_loop [0..<nat numShards]
                  \<lparr>Shards = [], Directory = directory, shardDimensions = Map.empty\<rparr>))"

fun NewKVStoreFromDisk_loop ::
  "'v jsonlib \<Rightarrow> filesystem \<Rightarrow> nat list \<Rightarrow> 'v KVStore \<Rightarrow> error + 'v KVStore" where
  "NewKVStoreFromDisk_loop lib fs [] c = Inr c"
| "NewKVStoreFromDisk_loop lib fs (i # is) c =
     (let fileName = (Directory c, i)
      in case file_at fs fileName of
           NotExist \<Rightarrow>
             NewKVStoreFromDisk_loop lib fs is
               (c\<lparr>Shards := Shards c @ [NewShard],
                  shardDimensions := (shardDimensions c)(i \<mapsto> 0)\<rparr>)
         | Unreadable err \<Rightarrow> Inl (UnloadableShardError i (ReadFileFailed err))
         | Content bDataS \<Rightarrow>
            (let lines = strings_Split bDataS;
                 integrityHashS = last lines
             in case hex_DecodeString integrityHashS of
                  Inl err \<Rightarrow> Inl (UnloadableShardError i (HexDecodeFailed err))
                | Inr integrityHash \<Rightarrow>
                   (let mapData = strings_Join (butlast lines);
                        actualHash = md5_Sum mapData
                    in if actualHash \<noteq> integrityHash
                       then Inl (UnloadableShardError i HashMismatch)
                       else (case json_Unmarshal lib mapData of
                               Inl err \<Rightarrow> Inl (UnloadableShardError i (UnmarshalFailed err))
                             | Inr data \<Rightarrow>
                                 NewKVStoreFromDisk_loop lib fs is
                                   (c\<lparr>shardDimensions :=
                                        (shardDimensions c)(i \<mapsto> fcard (fmdom data)),
                                      Shards := Shards c @ [NewShardWithData data]\<rparr>)))))"

definition NewKVStoreFromDisk ::
  "'v jsonlib \<Rightarrow> int \<Rightarrow> string \<Rightarrow> filesystem \<Rightarrow> error + 'v KVStore" where
  "NewKVStoreFromDisk lib numShards directory fs =
     (if numShards < 0 then Inl (RuntimePanic ''makeslice: cap out of range'')
      else NewKVStoreFromDisk_loop lib fs [0..<nat numShards]
             \<lparr>Shards = [], Directory = directory, shardDimensions = Map.empty\<rparr>)"

subsection \<open>Shard operations\<close>

definition getLength :: "'v Shard \<Rightarrow> nat" where
  "getLength s = fcard (fmdom (Data s))"

text \<open>
  The \<^verbatim>\<open>range\<close> loop of \<open>Evict\<close> visits every key of the map once, in an order Go
  leaves open; the model visits them in sorted order (the result does not depend on it,
  see \<open>Evict_Data\<close> below).
\<close>

fun Evict_loop :: "64 word \<Rightarrow> string list \<Rightarrow> 'v Shard \<Rightarrow> 'v Shard" where
  "Evict_loop currentTime [] s = s"
| "Evict_loop currentTime (key # keys) s =
     (case fmlookup (Data s) key of
        None \<Rightarrow> Evict_loop currentTime keys s
      | Some v \<Rightarrow>
          if f64_gt (Ttl v) f64_zero
             \<and> f64_gt (f64_of_int64 (currentTime - Timestamp v)) (Ttl v)
          then Evict_loop currentTime keys (s\<lparr>Data := fmdrop key (Data s)\<rparr>)
          else Evict_loop currentTime keys s)"

definition Evict :: "64 word \<Rightarrow> 'v Shard \<Rightarrow> 'v Shard" where
  "Evict currentTime s =
     (if getLength s = 0 then s
      else Evict_loop currentTime (sorted_list_of_fset (fmdom (Data s))) s)"

definition Flush :: "'v jsonlib \<Rightarrow> 'v Shard \<Rightarrow> filename \<Rightarrow> filesystem \<Rightarrow> error + filesystem" where
  "Flush lib s fileName fs =
     (if getLength s = 0 then Inr fs
      else (case json_Marshal lib (Data s) of
              Inl err \<Rightarrow> Inl (ExternalError err)
            | Inr data \<Rightarrow>
               (let hash = md5_Sum data;
                    encoded = hex_EncodeToString hash;
                    toWrite = data @ [newline] @ encoded
                in os_WriteFile fs fileName toWrite)))"

subsection \<open>Store operations\<close>

text \<open>
  Go's \<^verbatim>\<open>%\<close> truncates towards zero. \<^verbatim>\<open>int\<close> has 64 bits (as on amd64 and arm64), so
  \<^verbatim>\<open>int(hash)\<close> of a uint32 is never negative.
\<close>

definition go_rem :: "int \<Rightarrow> int \<Rightarrow> int" where
  "go_rem a b = sgn a * (\<bar>a\<bar> mod \<bar>b\<bar>)"

definition findShard :: "'v KVStore \<Rightarrow> string \<Rightarrow> error + int" where
  "findShard kv key =
     (let hash = ChecksumIEEE key;
          n = int (length (Shards kv))
      in if n = 0 then Inl (RuntimePanic ''integer divide by zero'')
         else Inr (go_rem (sint (ucast hash :: 64 word)) n))"

text \<open>The shard at an index computed by \<open>findShard\<close>; indexing out of range panics.\<close>

definition shardAt :: "'v KVStore \<Rightarrow> string \<Rightarrow> error + nat" where
  "shardAt kv key =
     (case findShard kv key of
        Inl err \<Rightarrow> Inl err
      | Inr shardIdx \<Rightarrow>
          if shardIdx < 0 \<or> int (length (Shards kv)) \<le> shardIdx
          then Inl (RuntimePanic ''index out of range'')
          else Inr (nat shardIdx))"

definition Put ::
  "64 word \<Rightarrow> string \<Rightarrow> 'v \<Rightarrow> float64 option \<Rightarrow> 'v KVStore \<Rightarrow> error + 'v KVStore" where
  "Put now key v ttl kv =
     (let actualTtl = (case ttl of None \<Rightarrow> Finite (- 1) 0
                       | Some t \<Rightarrow> f64_mul t (Finite 1000 0))
      in case shardAt kv key of
           Inl err \<Rightarrow> Inl err
         | Inr i \<Rightarrow>
             Inr (kv\<lparr>Shards := (Shards kv)
                    [i := (Shards kv ! i)
                       \<lparr>Data := fmupd key (NewShardEntry now v actualTtl)
                                  (Data (Shards kv ! i))\<rparr>]\<rparr>))"

definition Get :: "64 word \<Rightarrow> 'v KVStore \<Rightarrow> string \<Rightarrow> error + 'v" where
  "Get currentTime kv key =
     (case shardAt kv key of
        Inl err \<Rightarrow> Inl err
      | Inr i \<Rightarrow>
         (case fmlookup (Data (Shards kv ! i)) key of
            Some val \<Rightarrow>
              if f64_gt (Ttl val) f64_zero
                 \<and> f64_gt (f64_of_int64 (currentTime - Timestamp val)) (Ttl val)
              then Inl (ExpiredEntryError key (Ttl val) (currentTime - Timestamp val))
              else Inr (Value val)
          | None \<Rightarrow> Inl (KeyNotFoundError key)))"

definition Delete :: "string \<Rightarrow> 'v KVStore \<Rightarrow> error + 'v KVStore" where
  "Delete key kv =
     (case shardAt kv key of
        Inl err \<Rightarrow> Inl err
      | Inr i \<Rightarrow>
          Inr (kv\<lparr>Shards := (Shards kv)
                 [i := (Shards kv ! i)\<lparr>Data := fmdrop key (Data (Shards kv ! i))\<rparr>]\<rparr>))"

text \<open>
  \<open>Cleanup\<close> evicts shard after shard; each \<open>Evict\<close> reads the clock itself, so the
  model takes the time read by the call on shard \<open>i\<close> as \<open>clock i\<close>.
\<close>

fun Cleanup_loop :: "(nat \<Rightarrow> 64 word) \<Rightarrow> nat list \<Rightarrow> 'v KVStore \<Rightarrow> 'v KVStore" where
  "Cleanup_loop clock [] kv = kv"
| "Cleanup_loop clock (i # is) kv =
     Cleanup_loop clock is (kv\<lparr>Shards := (Shards kv)[i := Evict (clock i) (Shards kv ! i)]\<rparr>)"

definition Cleanup :: "(nat \<Rightarrow> 64 word) \<Rightarrow> 'v KVStore \<Rightarrow> 'v KVStore" where
  "Cleanup clock kv = Cleanup_loop clock [0..<length (Shards kv)] kv"

definition dimension :: "'v KVStore \<Rightarrow> nat \<Rightarrow> nat" where
  "dimension kv i = (case shardDimensions kv i of None \<Rightarrow> 0 | Some n \<Rightarrow> n)"

text \<open>\<open>ToDisk\<close> returns its error (if any), the store and the directory it leaves.\<close>

fun ToDisk_loop ::
  "'v jsonlib \<Rightarrow> nat list \<Rightarrow> 'v KVStore \<Rightarrow> filesystem \<Rightarrow> error option \<times> 'v KVStore \<times> filesystem"
  where
  "ToDisk_loop lib [] kv fs = (None, kv, fs)"
| "ToDisk_loop lib (i # is) kv fs =
     (let fileName = (Directory kv, i);
          shardLength = getLength (Shards kv ! i)
      in if dimension kv i = shardLength then ToDisk_loop lib is kv fs
         else (let kv' = kv\<lparr>shardDimensions := (shardDimensions kv)(i \<mapsto> shardLength)\<rparr>
               in case Flush lib (Shards kv' ! i) fileName fs of
                    Inl err \<Rightarrow> (Some err, kv', fs)
                  | Inr fs' \<Rightarrow> ToDisk_loop lib is kv' fs'))"

definition ToDisk ::
  "'v jsonlib \<Rightarrow> 'v KVStore \<Rightarrow> filesystem \<Rightarrow> error option \<times> 'v KVStore \<times> filesystem" where
  "ToDisk lib kv fs = ToDisk_loop lib [0..<length (Shards kv)] kv fs"

subsection \<open>Executions\<close>

text \<open>
  The callers of the engine (the HTTP handlers and the two workers) run its operations
  one after the other. An execution is a list of operations applied to the store and
  the snapshot directory; it stops at a panic. The flush worker logs the error \<open>ToDisk\<close>
  returns and goes on, so \<open>OpToDisk\<close> keeps the state \<open>ToDisk\<close> leaves in either case.
\<close>

datatype 'v op =
    OpPut "64 word" string 'v "float64 option"
  | OpGet "64 word" string
  | OpDelete string
  | OpCleanup "nat \<Rightarrow> 64 word"
  | OpToDisk

fun apply_op ::
  "'v jsonlib \<Rightarrow> 'v op \<Rightarrow> 'v KVStore \<times> filesystem \<Rightarrow> error + 'v KVStore \<times> filesystem"
  where
  "apply_op lib (OpPut now key v ttl) (kv, fs) =
     (case Put now key v ttl kv of Inl err \<Rightarrow> Inl err | Inr kv' \<Rightarrow> Inr (kv', fs))"
| "apply_op lib (OpGet now key) (kv, fs) =
     (case Get now kv key of
        Inl (RuntimePanic msg) \<Rightarrow> Inl (RuntimePanic msg)
      | _ \<Rightarrow> Inr (kv, fs))"
| "apply_op lib (OpDelete key) (kv, fs) =
     (case Delete key kv of Inl err \<Rightarrow> Inl err | Inr kv' \<Rightarrow> Inr (kv', fs))"
| "apply_op lib (OpCleanup clock) (kv, fs) = Inr (Cleanup clock kv, fs)"
| "apply_op lib OpToDisk (kv, fs) = Inr (snd (ToDisk lib kv fs))"

fun run_ops ::
  "'v jsonlib \<Rightarrow> 'v op list \<Rightarrow> 'v KVStore \<times> filesystem \<Rightarrow> error + 'v KVStore \<times> filesystem"
  where
  "run_ops lib [] w = Inr w"
| "run_ops lib (x # xs) w =
     (case apply_op lib x w of Inl err \<Rightarrow> Inl err | Inr w' \<Rightarrow> run_ops lib xs w')"

text \<open>The operations that write the key \<open>k\<close>: a \<open>Put\<close> or a \<open>Delete\<close> of \<open>k\<close>.\<close>

fun writes_key :: "string \<Rightarrow> 'v op \<Rightarrow> bool" where
  "writes_key k (OpPut now key v ttl) = (key = k)"
| "writes_key k (OpDelete key) = (key = k)"
| "writes_key k x = False"

text \<open>
  The expiry test of \<open>Get\<close> and \<open>Evict\<close>:
  \<^verbatim>\<open>Ttl > 0 && float64(currentTime - Timestamp) > Ttl\<close>.
\<close>

definition expired :: "64 word \<Rightarrow> 'v ShardEntry \<Rightarrow> bool" where
  "expired currentTime e \<longleftrightarrow>
     f64_gt (Ttl e) f64_zero \<and> f64_gt (f64_of_int64 (currentTime - Timestamp e)) (Ttl e)"

text \<open>The entry a store holds for a key, in the shard the key is routed to.\<close>

definition stored :: "'v KVStore \<Rightarrow> string \<Rightarrow> 'v ShardEntry option" where
  "stored kv key =
     (case shardAt kv key of Inl err \<Rightarrow> None | Inr i \<Rightarrow> fmlookup (Data (Shards kv ! i)) key)"

definition evictable :: "64 word \<Rightarrow> 'v Shard \<Rightarrow> string \<Rightarrow> bool" where
  "evictable now s k = (case fmlookup (Data s) k of None \<Rightarrow> False | Some e \<Rightarrow> expired now e)"

text \<open>A list of \<open>Put\<close>s and a list of \<open>Delete\<close>s, run in order.\<close>

fun Put_all ::
  "(64 word \<times> string \<times> 'v \<times> float64 option) list \<Rightarrow> 'v KVStore \<Rightarrow> error + 'v KVStore" where
  "Put_all [] kv = Inr kv"
| "Put_all ((now, key, v, ttl) # ps) kv =
     (case Put now key v ttl kv of Inl err \<Rightarrow> Inl err | Inr kv' \<Rightarrow> Put_all ps kv')"

fun Delete_all :: "string list \<Rightarrow> 'v KVStore \<Rightarrow> error + 'v KVStore" where
  "Delete_all [] kv = Inr kv"
| "Delete_all (key # keys) kv =
     (case Delete key kv of Inl err \<Rightarrow> Inl err | Inr kv' \<Rightarrow> Delete_all keys kv')"

text \<open>
  What one round of the loop of \<open>NewKVStoreFromDisk\<close> makes of a file: the reason it
  cannot be loaded, or the map of the new shard.
\<close>

definition load_file :: "'v jsonlib \<Rightarrow> file_state \<Rightarrow> load_failure + (string, 'v ShardEntry) fmap"
  where
  "load_file lib f =
     (case f of
        NotExist \<Rightarrow> Inr fmempty
      | Unreadable err \<Rightarrow> Inl (ReadFileFailed err)
      | Content bDataS \<Rightarrow>
         (case hex_DecodeString (last (strings_Split bDataS)) of
            Inl err \<Rightarrow> Inl (HexDecodeFailed err)
          | Inr integrityHash \<Rightarrow>
              if md5_Sum (strings_Join (butlast (strings_Split bDataS))) \<noteq> integrityHash
              then Inl HashMismatch
              else (case json_Unmarshal lib (strings_Join (butlast (strings_Split bDataS))) of
                      Inl err \<Rightarrow> Inl (UnmarshalFailed err)
                    | Inr d \<Rightarrow> Inr d)))"

text \<open>The bytes \<open>Flush\<close> writes for the serialised map \<open>d\<close>.\<close>

definition snapshot :: "string \<Rightarrow> string" where
  "snapshot d = d @ [newline] @ hex_EncodeToString (md5_Sum d)"

text \<open>
  A map after a round trip through JSON that keeps its keys: keys, timestamps and TTLs
  as they were, each value as \<open>conv\<close> gives it back (\<^verbatim>\<open>json.Unmarshal\<close> into \<^verbatim>\<open>any\<close>
  returns every number as a float64).
\<close>

definition reloaded ::
  "('v \<Rightarrow> 'v) \<Rightarrow> (string, 'v ShardEntry) fmap \<Rightarrow> (string, 'v ShardEntry) fmap" where
  "reloaded conv d = fmmap (\<lambda>e. e\<lparr>Value := conv (Value e)\<rparr>) d"

subsection \<open>Strings and values through encoding/json\<close>

text \<open>
  \<^verbatim>\<open>json.Marshal\<close> writes a string (a map key or a string value) rune by rune, as
  \<^verbatim>\<open>utf8.DecodeRuneInString\<close> reads it: a byte that does not start a valid UTF-8
  encoding is written as the escape of U+FFFD, which \<^verbatim>\<open>json.Unmarshal\<close> reads back as the
  three bytes \<open>EF BF BD\<close>; every other rune comes back as it was.

  \<open>utf8_first\<close> is the table \<^verbatim>\<open>first\<close> of package \<^verbatim>\<open>unicode/utf8\<close> with its accept ranges:
  for a leading byte above \<open>0x7F\<close>, the width of the encoding and the bounds of the
  second byte. \<open>utf8_width\<close> is the width \<^verbatim>\<open>DecodeRuneInString\<close> returns, or 0 where it
  returns \<^verbatim>\<open>RuneError\<close> of width 1.
\<close>

definition utf8_first :: "nat \<Rightarrow> (nat \<times> nat \<times> nat) option" where
  "utf8_first p0 =
     (if 0xC2 \<le> p0 \<and> p0 \<le> 0xDF then Some (2, 0x80, 0xBF)
      else if p0 = 0xE0 then Some (3, 0xA0, 0xBF)
      else if p0 = 0xED then Some (3, 0x80, 0x9F)
      else if 0xE1 \<le> p0 \<and> p0 \<le> 0xEF then Some (3, 0x80, 0xBF)
      else if p0 = 0xF0 then Some (4, 0x90, 0xBF)
      else if 0xF1 \<le> p0 \<and> p0 \<le> 0xF3 then Some (4, 0x80, 0xBF)
      else if p0 = 0xF4 then Some (4, 0x80, 0x8F)
      else None)"

definition utf8_between :: "nat \<Rightarrow> nat \<Rightarrow> char \<Rightarrow> bool" where
  "utf8_between lo hi c \<longleftrightarrow> lo \<le> of_char c \<and> (of_char c :: nat) \<le> hi"

definition utf8_width :: "string \<Rightarrow> nat" where
  "utf8_width s =
     (case s of
        [] \<Rightarrow> 0
      | c # cs \<Rightarrow>
          if (of_char c :: nat) < 0x80 then 1
          else (case utf8_first (of_char c) of
                  None \<Rightarrow> 0
                | Some (sz, lo, hi) \<Rightarrow>
                    if length s < sz then 0
                    else if \<not> utf8_between lo hi (s ! 1) then 0
                    else if sz \<le> 2 then 2
                    else if \<not> utf8_between 0x80 0xBF (s ! 2) then 0
                    else if sz \<le> 3 then 3
                    else if \<not> utf8_between 0x80 0xBF (s ! 3) then 0
                    else 4))"

text \<open>\<^verbatim>\<open>utf8.ValidString\<close>: every rune of the string decodes.\<close>

fun utf8_ValidString :: "string \<Rightarrow> bool" where
  "utf8_ValidString [] = True"
| "utf8_ValidString (c # cs) =
     (let n = utf8_width (c # cs)
      in n \<noteq> 0 \<and> utf8_ValidString (drop (n - 1) cs))"

text \<open>A string after \<^verbatim>\<open>json.Marshal\<close> and \<^verbatim>\<open>json.Unmarshal\<close>.\<close>

fun json_string :: "string \<Rightarrow> string" where
  "json_string [] = []"
| "json_string (c # cs) =
     (let n = utf8_width (c # cs)
      in if n = 0 then [CHR 0xEF, CHR 0xBF, CHR 0xBD] @ json_string cs
         else take n (c # cs) @ json_string (drop (n - 1) cs))"

text \<open>
  Some of Go's dynamic values, and what \<^verbatim>\<open>json.Unmarshal\<close> into \<^verbatim>\<open>any\<close> returns for the
  JSON text of each: a number comes back as the nearest float64, a string as
  \<open>json_string\<close> gives it.
\<close>

datatype gvalue = GoNil | GoBool bool | GoInt int | GoFloat64 float64 | GoString string

fun json_reload :: "gvalue \<Rightarrow> gvalue" where
  "json_reload (GoInt n) = GoFloat64 (f64_round n 0)"
| "json_reload (GoString s) = GoString (json_string s)"
| "json_reload v = v"

subsection \<open>Example data\<close>

definition empty_dir :: filesystem where
  "empty_dir = \<lparr>file_at = (\<lambda>name. NotExist), write_error = (\<lambda>name. None)\<rparr>"

definition two_shards :: "gvalue KVStore" where
  "two_shards =
     \<lparr>Shards = [NewShard, NewShard], Directory = ''.quache-test/'',
      shardDimensions = [0 \<mapsto> 0, 1 \<mapsto> 0]\<rparr>"

definition hey_entry :: "gvalue ShardEntry" where
  "hey_entry = \<lparr>Value = GoInt 1, Timestamp = 5, Ttl = Finite (- 1) 0\<rparr>"

definition hey_data :: "(string, gvalue ShardEntry) fmap" where
  "hey_data = fmupd ''hey'' hey_entry fmempty"

definition hey_body :: string where
  \<open>hey_body = ''{"hey":{"value":1,"timestamp":5,"ttl":-1}}''\<close>

text \<open>
  The JSON codec, tabulated at the one map of the examples: the text \<^verbatim>\<open>json.Marshal\<close>
  returns for it, and the map \<^verbatim>\<open>json.Unmarshal\<close> returns for that text.
\<close>

definition hey_lib :: "gvalue jsonlib" where
  "hey_lib =
     \<lparr>json_Marshal = (\<lambda>d. if d = hey_data then Inr hey_body else Inl ''not tabulated''),
      json_Unmarshal =
        (\<lambda>b. if b = hey_body then Inr (reloaded json_reload hey_data)
             else Inl ''not tabulated'')\<rparr>"

text \<open>
  The store after \<open>Put "hey" 1\<close> at time 5 on two empty shards, the same store and the
  directory after a \<open>ToDisk\<close>, the store after \<open>Delete "hey"\<close>, and a directory that
  refuses every write.
\<close>

definition hey_store :: "gvalue KVStore" where
  "hey_store = two_shards\<lparr>Shards := [\<lparr>Data = hey_data\<rparr>, NewShard]\<rparr>"

definition hey_flushed :: "gvalue KVStore" where
  "hey_flushed = hey_store\<lparr>shardDimensions := (shardDimensions hey_store)(0 \<mapsto> 1)\<rparr>"

definition hey_dir :: filesystem where
  "hey_dir =
     empty_dir\<lparr>file_at := (file_at empty_dir)((''.quache-test/'', 0) := Content (snapshot hey_body))\<rparr>"

definition hey_deleted :: "gvalue KVStore" where
  "hey_deleted = hey_flushed\<lparr>Shards := [NewShard, NewShard]\<rparr>"

definition readonly_dir :: filesystem where
  "readonly_dir = empty_dir\<lparr>write_error := (\<lambda>name. Some ''read-only file system'')\<rparr>"

text \<open>
  The same entry under the key of the single byte \<open>0xFF\<close>, which is not valid UTF-8.
  \<^verbatim>\<open>json.Marshal\<close> writes the key as the escape \<^verbatim>\<open>\ufffd\<close> (\<open>CHR 0x5C\<close> is the backslash),
  and \<^verbatim>\<open>json.Unmarshal\<close> returns for that text the map with the key \<open>EF BF BD\<close>. The codec
  is tabulated at this map; then the store after the \<open>Put\<close>, the store and the directory
  after a \<open>ToDisk\<close>, and the store \<open>NewKVStoreFromDisk\<close> builds from that directory.
\<close>

definition xff_data :: "(string, gvalue ShardEntry) fmap" where
  "xff_data = fmupd [CHR 0xFF] hey_entry fmempty"

definition xff_body :: string where
  \<open>xff_body = ''{"'' @ [CHR 0x5C] @ ''ufffd":{"value":1,"timestamp":5,"ttl":-1}}''\<close>

definition xff_read :: "(string, gvalue ShardEntry) fmap" where
  "xff_read =
     fmupd (json_string [CHR 0xFF]) (hey_entry\<lparr>Value := json_reload (Value hey_entry)\<rparr>) fmempty"

definition xff_lib :: "gvalue jsonlib" where
  "xff_lib =
     \<lparr>json_Marshal = (\<lambda>d. if d = xff_data then Inr xff_body else Inl ''not tabulated''),
      json_Unmarshal = (\<lambda>b. if b = xff_body then Inr xff_read else Inl ''not tabulated'')\<rparr>"

definition xff_store :: "gvalue KVStore" where
  "xff_store = two_shards\<lparr>Shards := [\<lparr>Data = xff_data\<rparr>, NewShard]\<rparr>"

definition xff_flushed :: "gvalue KVStore" where
  "xff_flushed = xff_store\<lparr>shardDimensions := (shardDimensions xff_store)(0 \<mapsto> 1)\<rparr>"

definition xff_dir :: filesystem where
  "xff_dir =
     empty_dir\<lparr>file_at := (file_at empty_dir)((''.quache-test/'', 0) := Content (snapshot xff_body))\<rparr>"

definition xff_reloaded :: "gvalue KVStore" where
  "xff_reloaded =
     \<lparr>Shards = [\<lparr>Data = xff_read\<rparr>, NewShard], Directory = ''.quache-test/'',
      shardDimensions = [0 \<mapsto> 1, 1 \<mapsto> 0]\<rparr>"

section \<open>Properties\<close>

subsection \<open>Shard routing\<close>

lemma crc32_byte_unfold:
  "crc32_byte c b = crc32_shift (crc32_shift (crc32_shift (crc32_shift
     (crc32_shift (crc32_shift (crc32_shift (crc32_shift (c XOR of_char b))))))))"
  by (simp add: crc32_byte_def eval_nat_numeral)

lemmas crc32_eval = ChecksumIEEE_def crc32_byte_unfold crc32_shift_def

lemma crc_key0: "ChecksumIEEE ''notthekindofthingyouwouldfind'' = 0x59d776ca"
  by (simp add: crc32_eval)

lemma crc_key1: "ChecksumIEEE ''thisisaverylongkey'' = 0x59f23e04"
  by (simp add: crc32_eval)

lemma crc_key2: "ChecksumIEEE ''this is an interesting key'' = 0x99827f3c"
  by (simp add: crc32_eval)

lemma crc_hey: "ChecksumIEEE ''hey'' = 0x88d615f0"
  by (simp add: crc32_eval)

lemma length_NewKVStore_loop [simp]:
  "length (Shards (NewKVStore_loop is c)) = length (Shards c) + length is"
  by (induction "is" arbitrary: c) simp_all

lemma sint_ucast_hash: "sint (ucast (h :: 32 word) :: 64 word) = uint h"
  by transfer
    (simp add: signed_take_bit_eq_take_bit_minus bit_take_bit_iff take_bit_int_eq_self_iff)

lemma go_rem_nonneg: "0 \<le> a \<Longrightarrow> 0 < b \<Longrightarrow> go_rem a b = a mod b"
  by (cases "a = 0") (simp_all add: go_rem_def)

lemma findShard_eq:
  "length (Shards kv) \<noteq> 0 \<Longrightarrow>
     findShard kv key = Inr (int (unat (ChecksumIEEE key) mod length (Shards kv)))"
  by (simp add: findShard_def Let_def sint_ucast_hash go_rem_nonneg zmod_int)

text \<open>
  C3. On a store with \<open>N > 0\<close> shards \<open>findShard\<close> returns the CRC-32 (IEEE) of the key
  bytes modulo \<open>N\<close>; two stores with the same number of shards route every key alike; and
  on a store built by \<open>NewKVStore 3\<close> the three keys of the routing test go to the shards
  0, 1 and 2.
\<close>

theorem findShard_is_crc32_mod:
  "(length (Shards kv) \<noteq> 0 \<longrightarrow>
      findShard kv key = Inr (int (unat (ChecksumIEEE key) mod length (Shards kv))))
   \<and> (length (Shards kv') = length (Shards kv) \<longrightarrow> findShard kv' key = findShard kv key)
   \<and> (\<exists>s :: 'v KVStore. NewKVStore 3 dir = Inr s
         \<and> findShard s ''notthekindofthingyouwouldfind'' = Inr 0
         \<and> findShard s ''thisisaverylongkey'' = Inr 1
         \<and> findShard s ''this is an interesting key'' = Inr 2)"
proof (intro conjI impI)
  assume "length (Shards kv) \<noteq> 0"
  then show "findShard kv key = Inr (int (unat (ChecksumIEEE key) mod length (Shards kv)))"
    by (rule findShard_eq)
next
  assume "length (Shards kv') = length (Shards kv)"
  then show "findShard kv' key = findShard kv key"
    by (simp add: findShard_def)
next
  let ?s = "NewKVStore_loop [0..<3]
              \<lparr>Shards = [], Directory = dir, shardDimensions = Map.empty\<rparr> :: 'v KVStore"
  have len: "length (Shards ?s) = 3" by simp
  have "NewKVStore 3 dir = Inr ?s" by (simp add: NewKVStore_def)
  moreover have "findShard ?s ''notthekindofthingyouwouldfind'' = Inr 0"
    using len by (simp add: findShard_eq crc_key0 del: length_NewKVStore_loop)
  moreover have "findShard ?s ''thisisaverylongkey'' = Inr 1"
    using len by (simp add: findShard_eq crc_key1 del: length_NewKVStore_loop)
  moreover have "findShard ?s ''this is an interesting key'' = Inr 2"
    using len by (simp add: findShard_eq crc_key2 del: length_NewKVStore_loop)
  ultimately show "\<exists>s :: 'v KVStore. NewKVStore 3 dir = Inr s
         \<and> findShard s ''notthekindofthingyouwouldfind'' = Inr 0
         \<and> findShard s ''thisisaverylongkey'' = Inr 1
         \<and> findShard s ''this is an interesting key'' = Inr 2"
    by blast
qed

theorem findShard_is_crc32_mod_witness:
  "length (Shards (\<lparr>Shards = [NewShard, NewShard, NewShard], Directory = ''a'',
                     shardDimensions = Map.empty\<rparr> :: unit KVStore)) \<noteq> 0
   \<and> length (Shards (\<lparr>Shards = [NewShard, NewShard, NewShard], Directory = ''b'',
                     shardDimensions = Map.empty\<rparr> :: unit KVStore))
       = length (Shards (\<lparr>Shards = [NewShard, NewShard, NewShard], Directory = ''a'',
                     shardDimensions = Map.empty\<rparr> :: unit KVStore))
   \<and> findShard (\<lparr>Shards = [NewShard, NewShard, NewShard], Directory = ''a'',
                  shardDimensions = Map.empty\<rparr> :: unit KVStore) ''hey'' = Inr 2
   \<and> findShard (\<lparr>Shards = [NewShard, NewShard, NewShard], Directory = ''b'',
                  shardDimensions = Map.empty\<rparr> :: unit KVStore) ''hey'' = Inr 2"
  using findShard_is_crc32_mod
    [of "\<lparr>Shards = [NewShard, NewShard, NewShard], Directory = ''a'',
          shardDimensions = Map.empty\<rparr> :: unit KVStore" "''hey''"
        "\<lparr>Shards = [NewShard, NewShard, NewShard], Directory = ''b'',
          shardDimensions = Map.empty\<rparr> :: unit KVStore" "''a''"]
  by (auto simp add: crc_hey)

subsection \<open>Float64 comparisons\<close>

(* 1e306 = 0x7F76C8E5CA239029 *)

lemma two_powi_pos: "0 < (2::real) powi e"
  by (simp add: zero_less_power_int)

lemma valof_pos [simp]: "0 < valof m e \<longleftrightarrow> 0 < m"
proof -
  have "0 < real_of_int m * 2 powi e \<longleftrightarrow> 0 < real_of_int m"
    using two_powi_pos [of e] zero_less_mult_pos2 [of "real_of_int m" "2 powi e"]
      mult_pos_pos [of "real_of_int m" "2 powi e"] by blast
  then show ?thesis by (simp add: valof_def del: power_int_numeral)
qed

lemma valof_nonpos [simp]: "valof m e \<le> 0 \<longleftrightarrow> m \<le> 0"
  using valof_pos [of m e] by linarith

lemma valof_zero [simp]: "valof 0 e = 0"
  by (simp add: valof_def)

lemma f64_gt_zero [simp]: "f64_gt x f64_zero \<longleftrightarrow> 0 < f64_sgn x"
  by (cases x) simp_all

lemma f64_le_zero [simp]: "f64_le x f64_zero \<longleftrightarrow> x \<noteq> NaN \<and> f64_sgn x \<le> 0"
  by (cases x) (simp_all add: sgn_if)

lemma f64_le_not_gt: "f64_le x y \<Longrightarrow> \<not> f64_gt x y"
  by (cases x; cases y) simp_all

lemma f64_round_zero: "f64_round 0 e = Finite 0 (if max (- 53) (- 1074 - e) \<le> 0 then e else e + max (- 53) (- 1074 - e))"
  unfolding f64_round_def Let_def by simp

lemma f64_round_neg:
  assumes neg: "n < 0"
  shows "f64_round n e \<noteq> NaN \<and> f64_sgn (f64_round n e) \<le> 0"
proof -
  define k where "k = max (bitlen \<bar>n\<bar> - 53) (- 1074 - e)"
  define q where "q = \<bar>n\<bar> div 2 ^ nat k"
  define r where "r = \<bar>n\<bar> mod 2 ^ nat k"
  define q' where "q' = (if k \<le> 0 then \<bar>n\<bar>
                         else if 2 ^ nat (k - 1) < r \<or> (r = 2 ^ nat (k - 1) \<and> odd q) then q + 1 else q)"
  define e' where "e' = (if k \<le> 0 then e else e + k)"
  have "0 \<le> q" by (simp add: q_def pos_imp_zdiv_nonneg_iff)
  then have q': "0 \<le> q'" by (simp add: q'_def)
  have eq: "f64_round n e =
      (if q' \<noteq> 0 \<and> 1024 < bitlen q' + e' then (if n < 0 then NegInf else PosInf) else Finite (sgn n * q') e')"
    unfolding f64_round_def Let_def k_def [symmetric] q_def [symmetric] r_def [symmetric]
      q'_def [symmetric] e'_def [symmetric] ..
  have "sgn (sgn n * q') \<le> 0"
    using neg q' by (simp add: sgn_if mult_le_0_iff)
  then show ?thesis using neg by (simp add: eq)
qed

lemma f64_round_nonpos:
  "n \<le> 0 \<Longrightarrow> f64_round n e \<noteq> NaN \<and> f64_sgn (f64_round n e) \<le> 0"
  using f64_round_neg [of n e] by (cases "n = 0") (simp_all add: f64_round_zero)

lemma f64_mul_1000_nonpos:
  assumes "f64_le t f64_zero"
  shows "f64_le (f64_mul t (Finite 1000 0)) f64_zero"
proof (cases t)
  case (Finite m e)
  with assms have "m \<le> 0" by (simp add: sgn_if split: if_splits)
  then have "m * 1000 \<le> 0" by simp
  then show ?thesis using Finite f64_round_nonpos [of "m * 1000" "e + 0"] by simp
qed (use assms in simp_all)

lemma bitlen_le: "a < 2 ^ w \<Longrightarrow> bitlen a \<le> int w"
  by (simp add: bitlen_def floorlog_le_iff nat_less_iff)

lemma f64_round_exact: "\<bar>n\<bar> < 2 ^ 53 \<Longrightarrow> f64_round n 0 = Finite n 0"
proof -
  assume a: "\<bar>n\<bar> < 2 ^ 53"
  then have b: "bitlen \<bar>n\<bar> \<le> 53" using bitlen_le [of "\<bar>n\<bar>" 53] by simp
  then have k: "max (bitlen \<bar>n\<bar> - 53) (- 1074 - 0) \<le> 0" by simp
  have "sgn n * \<bar>n\<bar> = n" by (simp add: sgn_if)
  then show ?thesis using k b unfolding f64_round_def Let_def by simp
qed

lemma bitlen_eqI:
  assumes "0 < w" and "2 ^ (w - 1) \<le> a" and "a < 2 ^ w"
  shows "bitlen a = int w"
proof -
  have "bitlen a \<le> int w" using assms(3) by (rule bitlen_le)
  moreover have "w \<le> floorlog 2 (nat a)"
  proof (rule floorlog_geI)
    have "(2::nat) ^ (w - 1) = nat (2 ^ (w - 1))" by (simp add: nat_power_eq)
    also have "\<dots> \<le> nat a" using assms(2) by (rule nat_mono)
    finally show "2 ^ (w - 1) \<le> nat a" .
  qed simp
  ultimately show ?thesis by (simp add: bitlen_def)
qed

text \<open>
  An elapsed time below \<open>2 ^ 53\<close> ms is converted exactly; from there on the conversion
  rounds, as for \<open>2 ^ 53 + 1\<close>.
\<close>

lemma f64_of_int64_exact: "\<bar>sint x\<bar> < 2 ^ 53 \<Longrightarrow> f64_of_int64 x = Finite (sint x) 0"
  by (simp add: f64_of_int64_def f64_round_exact)

lemma f64_of_int64_rounds: "f64_of_int64 (2 ^ 53 + 1) = Finite (2 ^ 52) 1"
proof -
  have a: "bitlen 9007199254740993 = 54" using bitlen_eqI [of 54 9007199254740993] by simp
  have b: "bitlen 4503599627370496 = 53" using bitlen_eqI [of 53 4503599627370496] by simp
  show ?thesis by (simp add: f64_of_int64_def f64_round_def Let_def a b)
qed

text \<open>
  A TTL of \<open>1e306\<close> seconds (the float64 \<open>6413338752028713 * 2 ^ 964\<close>) times 1000 is
  \<open>+Inf\<close>.
\<close>

lemma f64_mul_overflow: "f64_mul (Finite 6413338752028713 964) (Finite 1000 0) = PosInf"
proof -
  have a: "bitlen 6413338752028713000 = 63" using bitlen_eqI [of 63 6413338752028713000] by simp
  have b: "bitlen 6263026125028040 = 53" using bitlen_eqI [of 53 6263026125028040] by simp
  show ?thesis by (simp add: f64_round_def Let_def a b)
qed

subsection \<open>Routing and the stored entry\<close>

lemma shardAt_eq:
  "length (Shards kv) \<noteq> 0 \<Longrightarrow>
     shardAt kv key = Inr (unat (ChecksumIEEE key) mod length (Shards kv))"
  by (simp add: shardAt_def findShard_eq not_le)

lemma shardAt_no_shards:
  "length (Shards kv) = 0 \<Longrightarrow> shardAt kv key = Inl (RuntimePanic ''integer divide by zero'')"
  by (simp add: shardAt_def findShard_def)

lemma shardAt_Inr: "shardAt kv key = Inr i \<Longrightarrow> i < length (Shards kv) \<and> i = unat (ChecksumIEEE key) mod length (Shards kv)"
  by (cases "length (Shards kv) = 0") (auto simp add: shardAt_eq shardAt_no_shards)

lemma shardAt_cong: "length (Shards kv') = length (Shards kv) \<Longrightarrow> shardAt kv' key = shardAt kv key"
  by (simp add: shardAt_def findShard_def)

lemma shardAt_hey: "length (Shards kv) = 2 \<Longrightarrow> shardAt kv ''hey'' = Inr 0"
  by (simp add: shardAt_eq crc_hey)

lemma Evict_loop_Data:
  "Data (Evict_loop now ks s) = fmfilter (\<lambda>k. \<not> (k \<in> set ks \<and> evictable now s k)) (Data s)"
proof (induction ks arbitrary: s)
  case Nil
  then show ?case by simp
next
  case (Cons key ks)
  show ?case
  proof (cases "evictable now s key")
    case True
    then obtain v where v: "fmlookup (Data s) key = Some v" "expired now v"
      by (auto simp: evictable_def split: option.splits)
    let ?s' = "s\<lparr>Data := fmdrop key (Data s)\<rparr>"
    have ev: "\<And>k. k \<noteq> key \<Longrightarrow> evictable now ?s' k = evictable now s k"
      by (simp add: evictable_def)
    have "Data (Evict_loop now (key # ks) s) = Data (Evict_loop now ks ?s')"
      using v by (simp add: expired_def)
    also have "\<dots> = fmfilter (\<lambda>k. \<not> (k \<in> set ks \<and> evictable now ?s' k)) (Data ?s')"
      by (rule Cons.IH)
    also have "\<dots> = fmfilter (\<lambda>k. \<not> (k \<in> set (key # ks) \<and> evictable now s k)) (Data s)"
      using True by (intro fmap_ext) (auto simp: ev)
    finally show ?thesis .
  next
    case False
    then have "Data (Evict_loop now (key # ks) s) = Data (Evict_loop now ks s)"
      by (auto simp: evictable_def expired_def split: option.splits)
    also have "\<dots> = fmfilter (\<lambda>k. \<not> (k \<in> set ks \<and> evictable now s k)) (Data s)"
      by (rule Cons.IH)
    also have "\<dots> = fmfilter (\<lambda>k. \<not> (k \<in> set (key # ks) \<and> evictable now s k)) (Data s)"
      using False by (intro fmap_ext) auto
    finally show ?thesis .
  qed
qed

lemma Evict_Data: "Data (Evict now s) = fmfilter (\<lambda>k. \<not> evictable now s k) (Data s)"
proof (cases "getLength s = 0")
  case True
  then have "fmdom (Data s) = {||}" by (simp add: getLength_def)
  then have e: "Data s = fmempty" by (metis fmrestrict_fset_dom fmrestrict_fset_null)
  have "Data (Evict now s) = Data s" using True by (simp add: Evict_def)
  moreover have "fmfilter (\<lambda>k. \<not> evictable now s k) (Data s) = Data s"
    unfolding e by simp
  ultimately show ?thesis by simp
next
  case False
  have "fmfilter (\<lambda>k. \<not> (k \<in> set (sorted_list_of_fset (fmdom (Data s))) \<and> evictable now s k)) (Data s)
        = fmfilter (\<lambda>k. \<not> evictable now s k) (Data s)"
    by (intro fmap_ext) (auto simp: evictable_def split: option.splits)
  then show ?thesis using False by (simp add: Evict_def Evict_loop_Data)
qed

lemma Evict_lookup:
  "fmlookup (Data (Evict now s)) k =
     (case fmlookup (Data s) k of None \<Rightarrow> None
      | Some e \<Rightarrow> if expired now e then None else Some e)"
  by (simp add: Evict_Data evictable_def split: option.splits)

lemma Cleanup_loop_frame [simp]:
  "length (Shards (Cleanup_loop clock is kv)) = length (Shards kv)"
  "Directory (Cleanup_loop clock is kv) = Directory kv"
  "shardDimensions (Cleanup_loop clock is kv) = shardDimensions kv"
  by (induction "is" arbitrary: kv) simp_all

lemma Cleanup_loop_nth:
  "distinct is \<Longrightarrow> i < length (Shards kv) \<Longrightarrow>
     Shards (Cleanup_loop clock is kv) ! i =
       (if i \<in> set is then Evict (clock i) (Shards kv ! i) else Shards kv ! i)"
proof (induction "is" arbitrary: kv)
  case Nil
  then show ?case by simp
next
  case (Cons j js)
  show ?case
  proof (cases "i = j")
    case True
    then show ?thesis using Cons by simp
  next
    case False
    then show ?thesis using Cons by simp
  qed
qed

lemma Cleanup_frame [simp]:
  "length (Shards (Cleanup clock kv)) = length (Shards kv)"
  "Directory (Cleanup clock kv) = Directory kv"
  "shardDimensions (Cleanup clock kv) = shardDimensions kv"
  by (simp_all add: Cleanup_def)

lemma Cleanup_nth:
  "i < length (Shards kv) \<Longrightarrow> Shards (Cleanup clock kv) ! i = Evict (clock i) (Shards kv ! i)"
  by (simp add: Cleanup_def Cleanup_loop_nth)

lemma ToDisk_loop_frame [simp]:
  "Shards (fst (snd (ToDisk_loop lib is kv fs))) = Shards kv"
  "Directory (fst (snd (ToDisk_loop lib is kv fs))) = Directory kv"
  by (induction "is" arbitrary: kv fs) (simp_all add: Let_def split: sum.splits)

lemma ToDisk_frame [simp]:
  "Shards (fst (snd (ToDisk lib kv fs))) = Shards kv"
  "Directory (fst (snd (ToDisk lib kv fs))) = Directory kv"
  by (simp_all add: ToDisk_def)

lemma stored_SomeD:
  "stored kv key = Some e \<Longrightarrow>
     \<exists>i. shardAt kv key = Inr i \<and> i < length (Shards kv) \<and> fmlookup (Data (Shards kv ! i)) key = Some e"
  by (auto simp: stored_def split: sum.splits dest: shardAt_Inr)

lemma Get_stored:
  "stored kv key = Some e \<Longrightarrow>
     Get now kv key =
       (if expired now e then Inl (ExpiredEntryError key (Ttl e) (now - Timestamp e))
        else Inr (Value e))"
  by (auto simp: stored_def Get_def expired_def split: sum.splits)

lemma Put_Inr:
  "Put now key v ttl kv = Inr kv' \<Longrightarrow>
     \<exists>i. shardAt kv key = Inr i \<and> i < length (Shards kv) \<and>
       kv' = kv\<lparr>Shards := (Shards kv)
               [i := (Shards kv ! i)
                  \<lparr>Data := fmupd key
                     (NewShardEntry now v
                        (case ttl of None \<Rightarrow> Finite (- 1) 0 | Some t \<Rightarrow> f64_mul t (Finite 1000 0)))
                     (Data (Shards kv ! i))\<rparr>]\<rparr>"
  by (auto simp: Put_def Let_def split: sum.splits dest: shardAt_Inr)

lemma Put_succeeds:
  "length (Shards kv) \<noteq> 0 \<Longrightarrow> \<exists>kv'. Put now key v ttl kv = Inr kv'"
  by (simp add: Put_def Let_def shardAt_eq)

lemma Put_length [simp]:
  "Put now key v ttl kv = Inr kv' \<Longrightarrow> length (Shards kv') = length (Shards kv)"
  by (auto dest!: Put_Inr)

lemma Put_frame:
  "Put now key v ttl kv = Inr kv' \<Longrightarrow>
     Directory kv' = Directory kv \<and> shardDimensions kv' = shardDimensions kv"
  by (auto dest!: Put_Inr)

lemma stored_Put_same:
  "Put now key v ttl kv = Inr kv' \<Longrightarrow>
     stored kv' key = Some (NewShardEntry now v
        (case ttl of None \<Rightarrow> Finite (- 1) 0 | Some t \<Rightarrow> f64_mul t (Finite 1000 0)))"
proof -
  assume p: "Put now key v ttl kv = Inr kv'"
  then obtain i where i: "shardAt kv key = Inr i" "i < length (Shards kv)"
    and kv': "kv' = kv\<lparr>Shards := (Shards kv)
               [i := (Shards kv ! i)
                  \<lparr>Data := fmupd key
                     (NewShardEntry now v
                        (case ttl of None \<Rightarrow> Finite (- 1) 0 | Some t \<Rightarrow> f64_mul t (Finite 1000 0)))
                     (Data (Shards kv ! i))\<rparr>]\<rparr>"
    by (blast dest: Put_Inr)
  have "shardAt kv' key = Inr i"
    using i shardAt_cong [of kv' kv key] p by simp
  then show ?thesis using i by (simp add: stored_def kv')
qed

lemma stored_Put_other:
  assumes "Put now key v ttl kv = Inr kv'" and "k \<noteq> key"
  shows "stored kv' k = stored kv k"
proof -
  obtain i where i: "shardAt kv key = Inr i" "i < length (Shards kv)"
    and kv': "kv' = kv\<lparr>Shards := (Shards kv)
               [i := (Shards kv ! i)
                  \<lparr>Data := fmupd key
                     (NewShardEntry now v
                        (case ttl of None \<Rightarrow> Finite (- 1) 0 | Some t \<Rightarrow> f64_mul t (Finite 1000 0)))
                     (Data (Shards kv ! i))\<rparr>]\<rparr>"
    using assms(1) by (blast dest: Put_Inr)
  have c: "shardAt kv' k = shardAt kv k"
    using shardAt_cong [of kv' kv k] assms(1) by simp
  show ?thesis
  proof (cases "shardAt kv k")
    case (Inl err)
    then show ?thesis using c by (simp add: stored_def)
  next
    case (Inr j)
    then have "j < length (Shards kv)" by (blast dest: shardAt_Inr)
    then show ?thesis using c Inr assms(2) i
      by (cases "j = i") (simp_all add: stored_def kv')
  qed
qed

lemma Delete_Inr:
  "Delete key kv = Inr kv' \<Longrightarrow>
     \<exists>i. shardAt kv key = Inr i \<and> i < length (Shards kv) \<and>
       kv' = kv\<lparr>Shards := (Shards kv)
               [i := (Shards kv ! i)\<lparr>Data := fmdrop key (Data (Shards kv ! i))\<rparr>]\<rparr>"
  by (auto simp: Delete_def split: sum.splits dest: shardAt_Inr)

lemma Delete_succeeds:
  "length (Shards kv) \<noteq> 0 \<Longrightarrow> \<exists>kv'. Delete key kv = Inr kv'"
  by (simp add: Delete_def shardAt_eq)

lemma Delete_length [simp]:
  "Delete key kv = Inr kv' \<Longrightarrow> length (Shards kv') = length (Shards kv)"
  by (auto dest!: Delete_Inr)

lemma Delete_frame:
  "Delete key kv = Inr kv' \<Longrightarrow>
     Directory kv' = Directory kv \<and> shardDimensions kv' = shardDimensions kv"
  by (auto dest!: Delete_Inr)

lemma stored_Delete_other:
  assumes "Delete key kv = Inr kv'" and "k \<noteq> key"
  shows "stored kv' k = stored kv k"
proof -
  obtain i where i: "shardAt kv key = Inr i" "i < length (Shards kv)"
    and kv': "kv' = kv\<lparr>Shards := (Shards kv)
               [i := (Shards kv ! i)\<lparr>Data := fmdrop key (Data (Shards kv ! i))\<rparr>]\<rparr>"
    using assms(1) by (blast dest: Delete_Inr)
  have c: "shardAt kv' k = shardAt kv k"
    using shardAt_cong [of kv' kv k] assms(1) by simp
  show ?thesis
  proof (cases "shardAt kv k")
    case (Inl err)
    then show ?thesis using c by (simp add: stored_def)
  next
    case (Inr j)
    then have "j < length (Shards kv)" by (blast dest: shardAt_Inr)
    then show ?thesis using c Inr assms(2) i
      by (cases "j = i") (simp_all add: stored_def kv')
  qed
qed

lemma stored_Cleanup:
  "stored (Cleanup clock kv) k =
     (case shardAt kv k of Inl err \<Rightarrow> None
      | Inr i \<Rightarrow> (case stored kv k of None \<Rightarrow> None
                  | Some e \<Rightarrow> if expired (clock i) e then None else Some e))"
proof (cases "shardAt kv k")
  case (Inl err)
  then show ?thesis using shardAt_cong [of "Cleanup clock kv" kv k] by (simp add: stored_def)
next
  case (Inr i)
  then have "i < length (Shards kv)" by (blast dest: shardAt_Inr)
  then show ?thesis using Inr shardAt_cong [of "Cleanup clock kv" kv k]
    by (simp add: stored_def Cleanup_nth Evict_lookup)
qed

lemma stored_ToDisk [simp]: "stored (fst (snd (ToDisk lib kv fs))) k = stored kv k"
  using shardAt_cong [of "fst (snd (ToDisk lib kv fs))" kv k]
  by (simp add: stored_def split: sum.splits)

lemma not_expired: "\<not> f64_gt (Ttl e) f64_zero \<Longrightarrow> \<not> expired now e"
  by (simp add: expired_def)

lemma apply_op_keeps:
  assumes "stored kv k = Some e" and "\<not> f64_gt (Ttl e) f64_zero" and "\<not> writes_key k x"
  shows "\<exists>kv' fs'. apply_op lib x (kv, fs) = Inr (kv', fs') \<and> stored kv' k = Some e"
proof -
  from assms(1) have n: "length (Shards kv) \<noteq> 0"
    by (auto dest!: stored_SomeD)
  show ?thesis
  proof (cases x)
    case (OpPut now key v ttl)
    then have "k \<noteq> key" using assms(3) by auto
    moreover obtain kv' where "Put now key v ttl kv = Inr kv'"
      using Put_succeeds [OF n] by blast
    ultimately show ?thesis using OpPut assms(1) by (simp add: stored_Put_other)
  next
    case (OpGet now key)
    have "\<exists>r. Get now kv key = r \<and> (\<forall>msg. r \<noteq> Inl (RuntimePanic msg))"
      by (simp add: Get_def shardAt_eq [OF n] split: option.splits)
    then show ?thesis using OpGet assms(1)
      by (auto split: sum.splits error.splits)
  next
    case (OpDelete key)
    then have "k \<noteq> key" using assms(3) by auto
    moreover obtain kv' where "Delete key kv = Inr kv'"
      using Delete_succeeds [OF n] by blast
    ultimately show ?thesis using OpDelete assms(1) by (simp add: stored_Delete_other)
  next
    case (OpCleanup clock)
    then show ?thesis using assms(1,2)
      by (auto simp: stored_Cleanup not_expired split: sum.splits dest!: stored_SomeD)
  next
    case OpToDisk
    then show ?thesis using assms(1)
      by (cases "ToDisk lib kv fs") (metis apply_op.simps(5) prod.collapse stored_ToDisk)
  qed
qed

lemma run_ops_keeps:
  assumes "\<not> f64_gt (Ttl e) f64_zero"
  shows "stored kv k = Some e \<Longrightarrow> \<forall>x \<in> set xs. \<not> writes_key k x \<Longrightarrow>
     \<exists>kv' fs'. run_ops lib xs (kv, fs) = Inr (kv', fs') \<and> stored kv' k = Some e"
proof (induction xs arbitrary: kv fs)
  case Nil
  then show ?case by simp
next
  case (Cons x xs)
  then obtain kv1 fs1 where 1: "apply_op lib x (kv, fs) = Inr (kv1, fs1)" "stored kv1 k = Some e"
    using apply_op_keeps [OF Cons.prems(1) assms, of x lib fs] by auto
  then show ?case using Cons.IH [of kv1 fs1] Cons.prems(2) by simp
qed

subsection \<open>Put, Get and expiry\<close>

text \<open>
  C1. After \<open>Put k v\<close> without a TTL succeeds, the entry of \<open>k\<close> has the TTL \<open>-1\<close>, and
  after any execution that neither puts nor deletes \<open>k\<close> (other puts and deletes, gets,
  cleanups and flushes, at any times) \<open>Get k\<close> returns \<open>v\<close>, at every time.
\<close>

theorem put_without_ttl_get:
  assumes "Put t k v None kv = Inr kv1" and "\<forall>x \<in> set xs. \<not> writes_key k x"
  shows "map_option Ttl (stored kv1 k) = Some (Finite (- 1) 0)
       \<and> (\<exists>kv2 fs2. run_ops lib xs (kv1, fs) = Inr (kv2, fs2) \<and> (\<forall>now. Get now kv2 k = Inr v))"
proof -
  let ?e = "NewShardEntry t v (Finite (- 1) 0)"
  have s: "stored kv1 k = Some ?e" using stored_Put_same [OF assms(1)] by simp
  have n: "\<not> f64_gt (Ttl ?e) f64_zero" by (simp add: NewShardEntry_def)
  obtain kv2 fs2 where "run_ops lib xs (kv1, fs) = Inr (kv2, fs2)" "stored kv2 k = Some ?e"
    using run_ops_keeps [OF n s assms(2)] by blast
  moreover from this have "\<forall>now. Get now kv2 k = Inr v"
    using n by (simp add: Get_stored not_expired NewShardEntry_def)
  ultimately show ?thesis using s by (auto simp: NewShardEntry_def)
qed

theorem put_without_ttl_get_witness:
  "\<exists>kv1 kv2 fs2.
     Put 5 ''hey'' (GoInt 1) None two_shards = Inr kv1
     \<and> \<not> writes_key ''hey'' (OpGet 7 ''hey'' :: gvalue op)
     \<and> \<not> writes_key ''hey'' (OpToDisk :: gvalue op)
     \<and> \<not> writes_key ''hey'' (OpPut 8 ''k'' (GoInt 2) (Some (Finite 1 0)))
     \<and> \<not> writes_key ''hey'' (OpCleanup (\<lambda>i. 5000) :: gvalue op)
     \<and> \<not> writes_key ''hey'' (OpDelete ''k'' :: gvalue op)
     \<and> run_ops hey_lib
           [OpGet 7 ''hey'', OpToDisk, OpPut 8 ''k'' (GoInt 2) (Some (Finite 1 0)),
            OpCleanup (\<lambda>i. 5000), OpDelete ''k'']
           (kv1, empty_dir) = Inr (kv2, fs2)
     \<and> Get 6000 kv2 ''hey'' = Inr (GoInt 1)"
proof -
  have "length (Shards two_shards) \<noteq> 0" by (simp add: two_shards_def)
  then obtain kv1 where p: "Put 5 ''hey'' (GoInt 1) None two_shards = Inr kv1"
    using Put_succeeds [of two_shards 5 "''hey''" "GoInt 1" None] by blast
  have w: "\<forall>x \<in> set [OpGet 7 ''hey'', OpToDisk, OpPut 8 ''k'' (GoInt 2) (Some (Finite 1 0)),
            OpCleanup (\<lambda>i. 5000), OpDelete ''k'' :: gvalue op]. \<not> writes_key ''hey'' x"
    by simp
  from put_without_ttl_get [OF p w, of hey_lib empty_dir] p show ?thesis
    by auto
qed

text \<open>
  C2. For a key whose entry \<open>e\<close> is in its shard, \<open>Get\<close> returns the error
  \<open>ExpiredEntryError key ttl elapsed\<close> exactly when \<open>ttl > 0\<close> and
  \<open>float64(now - timestamp) > ttl\<close>, with \<open>elapsed = now - timestamp\<close>, and the stored
  value otherwise; an elapsed time not above the TTL (equal to it, say) is not expired;
  and \<open>Get\<close> leaves the store as it was, also when the entry is expired.
\<close>

theorem get_expiry:
  assumes "stored kv key = Some e"
  shows "Get now kv key =
           (if f64_gt (Ttl e) f64_zero \<and> f64_gt (f64_of_int64 (now - Timestamp e)) (Ttl e)
            then Inl (ExpiredEntryError key (Ttl e) (now - Timestamp e))
            else Inr (Value e))
       \<and> (f64_le (f64_of_int64 (now - Timestamp e)) (Ttl e) \<longrightarrow> Get now kv key = Inr (Value e))
       \<and> apply_op lib (OpGet now key) (kv, fs) = Inr (kv, fs)"
proof -
  have g: "Get now kv key =
           (if f64_gt (Ttl e) f64_zero \<and> f64_gt (f64_of_int64 (now - Timestamp e)) (Ttl e)
            then Inl (ExpiredEntryError key (Ttl e) (now - Timestamp e))
            else Inr (Value e))"
    using Get_stored [OF assms, of now] by (simp add: expired_def)
  then have "apply_op lib (OpGet now key) (kv, fs) = Inr (kv, fs)"
    by simp
  then show ?thesis using g by (auto dest: f64_le_not_gt)
qed

theorem get_expiry_witness:
  "stored (two_shards\<lparr>Shards := [\<lparr>Data = fmupd ''hey''
               \<lparr>Value = GoInt 1, Timestamp = 5, Ttl = Finite 1000 0\<rparr> fmempty\<rparr>, NewShard]\<rparr>)
      ''hey'' = Some \<lparr>Value = GoInt 1, Timestamp = 5, Ttl = Finite 1000 0\<rparr>
   \<and> f64_le (f64_of_int64 (1005 - 5)) (Finite 1000 0)
   \<and> Get 1005 (two_shards\<lparr>Shards := [\<lparr>Data = fmupd ''hey''
               \<lparr>Value = GoInt 1, Timestamp = 5, Ttl = Finite 1000 0\<rparr> fmempty\<rparr>, NewShard]\<rparr>)
        ''hey'' = Inr (GoInt 1)
   \<and> Get 1006 (two_shards\<lparr>Shards := [\<lparr>Data = fmupd ''hey''
               \<lparr>Value = GoInt 1, Timestamp = 5, Ttl = Finite 1000 0\<rparr> fmempty\<rparr>, NewShard]\<rparr>)
        ''hey'' = Inl (ExpiredEntryError ''hey'' (Finite 1000 0) 1001)"
proof -
  let ?e = "\<lparr>Value = GoInt 1, Timestamp = 5, Ttl = Finite 1000 0\<rparr> :: gvalue ShardEntry"
  let ?kv = "two_shards\<lparr>Shards := [\<lparr>Data = fmupd ''hey'' ?e fmempty\<rparr>, NewShard]\<rparr>"
  have "length (Shards ?kv) = 2" by simp
  then have "shardAt ?kv ''hey'' = Inr 0" by (rule shardAt_hey)
  then have s: "stored ?kv ''hey'' = Some ?e"
    by (simp add: stored_def)
  have a: "f64_of_int64 (1005 - 5) = Finite 1000 0"
    by (simp add: f64_of_int64_def f64_round_exact)
  have b: "f64_of_int64 (1006 - 5) = Finite 1001 0"
    by (simp add: f64_of_int64_def f64_round_exact)
  have v: "valof 1000 0 < valof 1001 0" by (simp add: valof_def)
  show ?thesis
    using get_expiry [OF s, of 1005 hey_lib empty_dir] get_expiry [OF s, of 1006 hey_lib empty_dir]
      s a b v
    by simp
qed

subsection \<open>Eviction\<close>

text \<open>
  C6. After \<open>Cleanup\<close>, no shard holds an entry with \<open>ttl > 0\<close> whose elapsed time, at
  the time its shard was evicted, is above its TTL; every entry with \<open>ttl \<le> 0\<close> that was
  in a shard is still there; and \<open>Evict\<close> leaves an empty shard as it is.
\<close>

theorem cleanup_evicts:
  assumes "i < length (Shards kv)"
  shows "(\<forall>k e. fmlookup (Data (Shards (Cleanup clock kv) ! i)) k = Some e \<longrightarrow>
            \<not> (f64_gt (Ttl e) f64_zero
               \<and> f64_gt (f64_of_int64 (clock i - Timestamp e)) (Ttl e)))
       \<and> (\<forall>k e. fmlookup (Data (Shards kv ! i)) k = Some e \<and> f64_le (Ttl e) f64_zero \<longrightarrow>
            fmlookup (Data (Shards (Cleanup clock kv) ! i)) k = Some e)
       \<and> (\<forall>now s. getLength s = 0 \<longrightarrow> Evict now (s :: 'v Shard) = s)"
proof (intro conjI allI impI)
  fix k e
  assume "fmlookup (Data (Shards (Cleanup clock kv) ! i)) k = Some e"
  then have "\<not> expired (clock i) e"
    using assms by (auto simp: Cleanup_nth Evict_lookup split: option.splits if_splits)
  then show "\<not> (f64_gt (Ttl e) f64_zero
               \<and> f64_gt (f64_of_int64 (clock i - Timestamp e)) (Ttl e))"
    by (simp add: expired_def)
next
  fix k e
  assume a: "fmlookup (Data (Shards kv ! i)) k = Some e \<and> f64_le (Ttl e) f64_zero"
  then have "\<not> f64_gt (Ttl e) f64_zero" by (blast dest: f64_le_not_gt)
  then have "\<not> expired (clock i) e" by (rule not_expired)
  then show "fmlookup (Data (Shards (Cleanup clock kv) ! i)) k = Some e"
    using a assms by (simp add: Cleanup_nth Evict_lookup)
next
  fix now and s :: "'v Shard"
  assume "getLength s = 0"
  then show "Evict now s = s" by (simp add: Evict_def)
qed

theorem cleanup_evicts_witness:
  "0 < length (Shards (two_shards\<lparr>Shards := [\<lparr>Data = hey_data\<rparr>, NewShard]\<rparr>))
   \<and> fmlookup (Data (Shards (two_shards\<lparr>Shards := [\<lparr>Data = hey_data\<rparr>, NewShard]\<rparr>) ! 0))
        ''hey'' = Some hey_entry
   \<and> f64_le (Ttl hey_entry) f64_zero
   \<and> fmlookup (Data (Shards (Cleanup (\<lambda>i. 5000)
          (two_shards\<lparr>Shards := [\<lparr>Data = hey_data\<rparr>, NewShard]\<rparr>)) ! 0)) ''hey'' = Some hey_entry
   \<and> \<not> (f64_gt (Ttl hey_entry) f64_zero
         \<and> f64_gt (f64_of_int64 (5000 - Timestamp hey_entry)) (Ttl hey_entry))
   \<and> getLength (NewShard :: gvalue Shard) = 0
   \<and> Evict 5000 (NewShard :: gvalue Shard) = NewShard"
proof -
  let ?kv = "two_shards\<lparr>Shards := [\<lparr>Data = hey_data\<rparr>, NewShard]\<rparr>"
  have l: "0 < length (Shards ?kv)" by simp
  have a: "fmlookup (Data (Shards ?kv ! 0)) ''hey'' = Some hey_entry"
    by (simp add: hey_data_def)
  have b: "f64_le (Ttl hey_entry) f64_zero" by (simp add: hey_entry_def)
  have c: "getLength (NewShard :: gvalue Shard) = 0" by (simp add: getLength_def NewShard_def)
  have d: "fmlookup (Data (Shards (Cleanup (\<lambda>i. 5000) ?kv) ! 0)) ''hey'' = Some hey_entry"
    using cleanup_evicts [OF l, of "\<lambda>i. 5000"] a b by blast
  have e: "\<not> (f64_gt (Ttl hey_entry) f64_zero
         \<and> f64_gt (f64_of_int64 (5000 - Timestamp hey_entry)) (Ttl hey_entry))"
    using cleanup_evicts [OF l, of "\<lambda>i. 5000"] d by blast
  have f: "Evict 5000 (NewShard :: gvalue Shard) = NewShard"
    using cleanup_evicts [OF l, of "\<lambda>i. 5000"] c by blast
  from l a b c d e f show ?thesis by blast
qed

subsection \<open>Entries that never expire\<close>

text \<open>
  C10. A \<open>Put\<close> with an explicit TTL of \<open>t \<le> 0\<close> seconds stores the TTL \<open>t * 1000 \<le> 0\<close>;
  no \<open>Evict\<close> removes the entry, and after any execution that neither puts nor deletes
  the key (cleanups included) the entry is still there and \<open>Get\<close> returns the value, at
  every time.
\<close>

theorem put_nonpositive_ttl_never_expires:
  assumes "f64_le t f64_zero"
    and "Put t0 k v (Some t) kv = Inr kv1"
    and "\<forall>x \<in> set xs. \<not> writes_key k x"
  shows "\<exists>e. stored kv1 k = Some e \<and> Value e = v
           \<and> Ttl e = f64_mul t (Finite 1000 0) \<and> f64_le (Ttl e) f64_zero
           \<and> (\<forall>now i. shardAt kv1 k = Inr i \<longrightarrow>
                 fmlookup (Data (Evict now (Shards kv1 ! i))) k = Some e)
           \<and> (\<exists>kv2 fs2. run_ops lib xs (kv1, fs) = Inr (kv2, fs2)
                 \<and> stored kv2 k = Some e \<and> (\<forall>now. Get now kv2 k = Inr v))"
proof -
  let ?e = "NewShardEntry t0 v (f64_mul t (Finite 1000 0))"
  have s: "stored kv1 k = Some ?e" using stored_Put_same [OF assms(2)] by simp
  have le: "f64_le (Ttl ?e) f64_zero"
    using f64_mul_1000_nonpos [OF assms(1)] by (simp add: NewShardEntry_def)
  then have n: "\<not> f64_gt (Ttl ?e) f64_zero" by (rule f64_le_not_gt)
  have ev: "\<forall>now i. shardAt kv1 k = Inr i \<longrightarrow>
              fmlookup (Data (Evict now (Shards kv1 ! i))) k = Some ?e"
    using s not_expired [OF n] by (auto simp: stored_def Evict_lookup)
  obtain kv2 fs2 where r: "run_ops lib xs (kv1, fs) = Inr (kv2, fs2)" "stored kv2 k = Some ?e"
    using run_ops_keeps [OF n s assms(3)] by blast
  then have "\<forall>now. Get now kv2 k = Inr v"
    using n by (simp add: Get_stored not_expired NewShardEntry_def)
  with r s le ev show ?thesis
    by (intro exI [of _ ?e]) (auto simp: NewShardEntry_def)
qed

theorem put_nonpositive_ttl_never_expires_witness:
  "\<exists>kv1 kv2 fs2 e.
     f64_le (Finite (- 1) 0) f64_zero
     \<and> Put 5 ''hey'' (GoInt 1) (Some (Finite (- 1) 0)) two_shards = Inr kv1
     \<and> \<not> writes_key ''hey'' (OpCleanup (\<lambda>i. 5000) :: gvalue op)
     \<and> \<not> writes_key ''hey'' (OpPut 8 ''k'' (GoInt 2) None)
     \<and> stored kv1 ''hey'' = Some e \<and> Ttl e = Finite (- 1000) 0
     \<and> shardAt kv1 ''hey'' = Inr 0
     \<and> fmlookup (Data (Evict 5000 (Shards kv1 ! 0))) ''hey'' = Some e
     \<and> run_ops hey_lib [OpCleanup (\<lambda>i. 5000), OpPut 8 ''k'' (GoInt 2) None] (kv1, empty_dir)
         = Inr (kv2, fs2)
     \<and> Get 6000 kv2 ''hey'' = Inr (GoInt 1)"
proof -
  have n: "length (Shards two_shards) \<noteq> 0" by (simp add: two_shards_def)
  then obtain kv1 where p: "Put 5 ''hey'' (GoInt 1) (Some (Finite (- 1) 0)) two_shards = Inr kv1"
    using Put_succeeds [of two_shards 5 "''hey''" "GoInt 1" "Some (Finite (- 1) 0)"] by blast
  have le: "f64_le (Finite (- 1) 0) f64_zero" by simp
  have w: "\<forall>x \<in> set [OpCleanup (\<lambda>i. 5000), OpPut 8 ''k'' (GoInt 2) None :: gvalue op].
             \<not> writes_key ''hey'' x"
    by simp
  have m: "f64_mul (Finite (- 1) 0) (Finite 1000 0) = Finite (- 1000) 0"
    by (simp add: f64_round_exact)
  have "length (Shards kv1) = 2" using Put_length [OF p] by (simp add: two_shards_def)
  then have i: "shardAt kv1 ''hey'' = Inr 0" by (rule shardAt_hey)
  from put_nonpositive_ttl_never_expires [OF le p w, of hey_lib empty_dir] p le i m
  show ?thesis by auto
qed

subsection \<open>Snapshot files\<close>

lemma strings_Split_nonempty [simp]: "strings_Split s \<noteq> []"
  by (induction s) (auto split: list.splits)

lemma strings_Split_no_newline: "newline \<notin> set s \<Longrightarrow> strings_Split s = [s]"
  by (induction s) auto

lemma strings_Split_append:
  "strings_Split (b @ newline # t) = strings_Split b @ strings_Split t"
proof (induction b)
  case Nil
  then show ?case by simp
next
  case (Cons c b)
  then show ?case
    by (cases "strings_Split b") (auto split: list.splits)
qed

lemma strings_Join_Cons: "ls \<noteq> [] \<Longrightarrow> strings_Join (l # ls) = l @ newline # strings_Join ls"
  by (cases ls) simp_all

lemma strings_Join_Split [simp]: "strings_Join (strings_Split s) = s"
proof (induction s)
  case Nil
  then show ?case by simp
next
  case (Cons c s)
  show ?case
  proof (cases "c = newline")
    case True
    then show ?thesis using Cons by (simp add: strings_Join_Cons)
  next
    case False
    obtain l ls where l: "strings_Split s = l # ls"
      by (cases "strings_Split s") auto
    show ?thesis
    proof (cases ls)
      case Nil
      then show ?thesis using False l Cons by simp
    next
      case (Cons a as)
      then show ?thesis using False l Cons.IH by (simp add: strings_Join_Cons)
    qed
  qed
qed

lemma split_snapshot:
  assumes "newline \<notin> set h"
  shows "last (strings_Split (b @ newline # h)) = h"
    and "strings_Join (butlast (strings_Split (b @ newline # h))) = b"
  using assms by (simp_all add: strings_Split_append strings_Split_no_newline butlast_append)

lemma upt16: "[0..<16] = [0, 1, 2, 3, 4, 5, 6, 7, 8, 9, 10, 11, 12, 13, 14, 15]"
  by code_simp

lemma hextable_all:
  "list_all (\<lambda>n. fromHexChar (hextable ! n) = Some n \<and> hextable ! n \<noteq> newline) [0..<16]"
  unfolding upt16 by (simp add: hextable_def fromHexChar_def)

lemma hextable_nth:
  "n < 16 \<Longrightarrow> fromHexChar (hextable ! n) = Some n \<and> hextable ! n \<noteq> newline"
  using hextable_all by (simp add: list_all_iff)

lemma hex_byte:
  "hex_DecodeString (hextable ! (unat v div 16) # hextable ! (unat v mod 16) # cs) =
     (case hex_DecodeString cs of Inl err \<Rightarrow> Inl err | Inr bs \<Rightarrow> Inr ((v :: 8 word) # bs))"
proof -
  have "unat v < 256" using unsigned_less [of v] by simp
  then have d: "unat v div 16 < 16" by simp
  have m: "unat v mod 16 < 16" by simp
  have "word_of_nat (unat v div 16 * 16 + unat v mod 16) = v" by simp
  then show ?thesis using hextable_nth [OF d] hextable_nth [OF m]
    by (simp split: sum.splits)
qed

lemma hex_Decode_Encode [simp]: "hex_DecodeString (hex_EncodeToString bs) = Inr bs"
  by (induction bs) (simp_all add: hex_EncodeToString_def hex_byte del: hex_DecodeString.simps(3))

lemma hex_Encode_no_newline [simp]: "newline \<notin> set (hex_EncodeToString bs)"
proof (induction bs)
  case Nil
  then show ?case by (simp add: hex_EncodeToString_def)
next
  case (Cons v bs)
  have "unat v < 256" using unsigned_less [of v] by simp
  then have d: "unat v div 16 < 16" by simp
  have m: "unat v mod 16 < 16" by simp
  show ?case using Cons hextable_nth [OF d] hextable_nth [OF m]
    by (auto simp: hex_EncodeToString_def)
qed

lemma length_hex_Encode [simp]: "length (hex_EncodeToString bs) = 2 * length bs"
  by (induction bs) (simp_all add: hex_EncodeToString_def)

lemma length_hex_Decode:
  "hex_DecodeString s = Inr bs \<Longrightarrow> 2 * length bs = length s"
  by (induction s arbitrary: bs rule: hex_DecodeString.induct)
    (auto split: option.splits sum.splits)

lemma length_md5_Sum [simp]: "length (md5_Sum s) = 16"
  by (simp add: md5_Sum_def bytes32_def split: prod.splits)

lemma load_file_snapshot:
  "load_file lib (Content (snapshot body)) =
     (case json_Unmarshal lib body of Inl err \<Rightarrow> Inl (UnmarshalFailed err) | Inr d \<Rightarrow> Inr d)"
  by (simp add: load_file_def snapshot_def split_snapshot)

lemma load_file_corrupt:
  "md5_Sum body' \<noteq> md5_Sum body \<Longrightarrow>
     load_file lib (Content (body' @ newline # hex_EncodeToString (md5_Sum body))) = Inl HashMismatch"
  by (simp add: load_file_def split_snapshot)

lemma NewKVStoreFromDisk_loop_step:
  "NewKVStoreFromDisk_loop lib fs (i # is) c =
     (case load_file lib (file_at fs (Directory c, i)) of
        Inl r \<Rightarrow> Inl (UnloadableShardError i r)
      | Inr d \<Rightarrow>
          NewKVStoreFromDisk_loop lib fs is
            (c\<lparr>Shards := Shards c @ [\<lparr>Data = d\<rparr>],
               shardDimensions := (shardDimensions c)(i \<mapsto> fcard (fmdom d))\<rparr>))"
proof -
  have swap: "\<And>d s. c\<lparr>shardDimensions := d, Shards := s\<rparr> = c\<lparr>Shards := s, shardDimensions := d\<rparr>"
    by simp
  show ?thesis
    by (cases "file_at fs (Directory c, i)")
      (simp_all add: load_file_def Let_def NewShard_def NewShardWithData_def fcard_fempty swap
        split: sum.splits)
qed

lemma NewKVStoreFromDisk_loop_fails:
  assumes "\<forall>j \<in> set pre. \<exists>d. load_file lib (file_at fs (Directory c, j)) = Inr d"
    and "load_file lib (file_at fs (Directory c, i)) = Inl r"
  shows "NewKVStoreFromDisk_loop lib fs (pre @ i # post) c = Inl (UnloadableShardError i r)"
  using assms
proof (induction pre arbitrary: c)
  case Nil
  then show ?case by (simp add: NewKVStoreFromDisk_loop_step del: NewKVStoreFromDisk_loop.simps)
next
  case (Cons j pre)
  then obtain d where d: "load_file lib (file_at fs (Directory c, j)) = Inr d" by auto
  let ?c = "c\<lparr>Shards := Shards c @ [\<lparr>Data = d\<rparr>],
               shardDimensions := (shardDimensions c)(j \<mapsto> fcard (fmdom d))\<rparr>"
  have "NewKVStoreFromDisk_loop lib fs (pre @ i # post) ?c = Inl (UnloadableShardError i r)"
    using Cons.prems by (intro Cons.IH) simp_all
  then show ?case
    using d by (simp add: NewKVStoreFromDisk_loop_step del: NewKVStoreFromDisk_loop.simps)
qed

lemma NewKVStoreFromDisk_loop_succeeds:
  assumes "\<forall>j \<in> set is. \<exists>d. load_file lib (file_at fs (Directory c, j)) = Inr d"
  shows "\<exists>c'. NewKVStoreFromDisk_loop lib fs is c = Inr c'
           \<and> Directory c' = Directory c
           \<and> Shards c' = Shards c @
                map (\<lambda>j. \<lparr>Data = projr (load_file lib (file_at fs (Directory c, j)))\<rparr>) is"
  using assms
proof (induction "is" arbitrary: c)
  case Nil
  then show ?case by simp
next
  case (Cons j js)
  then obtain d where d: "load_file lib (file_at fs (Directory c, j)) = Inr d" by auto
  let ?c = "c\<lparr>Shards := Shards c @ [\<lparr>Data = d\<rparr>],
               shardDimensions := (shardDimensions c)(j \<mapsto> fcard (fmdom d))\<rparr>"
  have "\<exists>c'. NewKVStoreFromDisk_loop lib fs js ?c = Inr c'
           \<and> Directory c' = Directory ?c
           \<and> Shards c' = Shards ?c @
                map (\<lambda>j. \<lparr>Data = projr (load_file lib (file_at fs (Directory ?c, j)))\<rparr>) js"
    using Cons.prems by (intro Cons.IH) simp_all
  then show ?case
    using d by (auto simp add: NewKVStoreFromDisk_loop_step simp del: NewKVStoreFromDisk_loop.simps)
qed

lemma NewKVStoreFromDisk_succeeds:
  assumes "\<forall>j < nat n. \<exists>d. load_file lib (file_at fs (dir, j)) = Inr d" and "0 \<le> n"
  shows "\<exists>c'. NewKVStoreFromDisk lib n dir fs = Inr c'
           \<and> Directory c' = dir \<and> length (Shards c') = nat n
           \<and> (\<forall>j < nat n. Data (Shards c' ! j) = projr (load_file lib (file_at fs (dir, j))))"
proof -
  let ?c = "\<lparr>Shards = [], Directory = dir, shardDimensions = Map.empty\<rparr> :: 'a KVStore"
  have "\<forall>j \<in> set [0..<nat n]. \<exists>d. load_file lib (file_at fs (Directory ?c, j)) = Inr d"
    using assms(1) by simp
  from NewKVStoreFromDisk_loop_succeeds [OF this]
  obtain c' where c': "NewKVStoreFromDisk_loop lib fs [0..<nat n] ?c = Inr c'"
    "Directory c' = dir"
    "Shards c' = map (\<lambda>j. \<lparr>Data = projr (load_file lib (file_at fs (dir, j)))\<rparr>) [0..<nat n]"
    by auto
  then show ?thesis using assms(2) by (auto simp: NewKVStoreFromDisk_def)
qed

lemma NewKVStoreFromDisk_fails:
  assumes "\<forall>j < i. \<exists>d. load_file lib (file_at fs (dir, j)) = Inr d"
    and "load_file lib (file_at fs (dir, i)) = Inl r" and "i < nat n"
  shows "NewKVStoreFromDisk lib n dir fs = Inl (UnloadableShardError i r)"
proof -
  let ?c = "\<lparr>Shards = [], Directory = dir, shardDimensions = Map.empty\<rparr> :: 'a KVStore"
  have "[0..<nat n] = [0..<i] @ [i..<nat n]"
    using assms(3) upt_add_eq_append [of 0 i "nat n - i"] by simp
  then have u: "[0..<nat n] = [0..<i] @ i # [Suc i..<nat n]"
    using assms(3) by (simp add: upt_conv_Cons)
  have "NewKVStoreFromDisk_loop lib fs ([0..<i] @ i # [Suc i..<nat n]) ?c
          = Inl (UnloadableShardError i r)"
    using assms(1,2) by (intro NewKVStoreFromDisk_loop_fails) simp_all
  then show ?thesis using assms(3) u by (simp add: NewKVStoreFromDisk_def)
qed

lemma Flush_empty: "getLength s = 0 \<Longrightarrow> Flush lib s name fs = Inr fs"
  by (simp add: Flush_def)

lemma Flush_Inr:
  "Flush lib s name fs = Inr fs' \<Longrightarrow> getLength s \<noteq> 0 \<Longrightarrow>
     \<exists>body. json_Marshal lib (Data s) = Inr body \<and> write_error fs name = None
       \<and> fs' = fs\<lparr>file_at := (file_at fs)(name := Content (snapshot body))\<rparr>"
  by (auto simp: Flush_def os_WriteFile_def snapshot_def Let_def split: sum.splits option.splits)

lemma Flush_frame:
  "Flush lib s name fs = Inr fs' \<Longrightarrow>
     write_error fs' = write_error fs \<and> (\<forall>other. other \<noteq> name \<longrightarrow> file_at fs' other = file_at fs other)"
  by (auto simp: Flush_def os_WriteFile_def Let_def split: sum.splits option.splits if_splits)

subsection \<open>Evaluating MD5\<close>

lemma upt_0_numeral: "[0..<numeral n] = 0 # [Suc 0..<numeral n]"
  by (subst upt_rec) simp

lemma upt_1_numeral:
  "[Suc 0..<numeral n] = (if 1 < (numeral n :: nat) then Suc 0 # [2..<numeral n] else [])"
  by (subst upt_rec) (simp add: numeral_2_eq_2)

lemmas upt_eval = upt_0_numeral upt_1_numeral

lemma replicate_numeral: "replicate (numeral k) x = x # replicate (pred_numeral k) x"
  by (simp add: numeral_eq_Suc)

lemma take_numeral_Cons: "take (numeral k) (x # xs) = x # take (pred_numeral k) xs"
  by (simp add: numeral_eq_Suc)

lemma drop_numeral_Cons: "drop (numeral k) (x # xs) = drop (pred_numeral k) xs"
  by (simp add: numeral_eq_Suc)

lemma md5_table_fst: "map fst md5_table = [0..<64]"
  by (simp add: md5_table_def md5_K_def md5_s_def md5_g_def)

lemma md5_step_table: "x \<in> set md5_table \<Longrightarrow> md5_step m st (fst x) = md5_step' m st x"
  by (cases st; cases x)
    (auto simp: md5_table_def md5_step_def md5_step'_def in_set_zip)

lemma md5_rounds_table:
  "foldl (md5_step m) st [0..<64] = foldl (md5_step' m) st md5_table"
proof -
  have "foldl (md5_step m) st (map fst xs) = foldl (md5_step' m) st xs"
    if "set xs \<subseteq> set md5_table" for xs
    using that by (induction xs arbitrary: st) (simp_all add: md5_step_table)
  then show ?thesis by (simp add: md5_table_fst [symmetric])
qed

lemma md5_step'_norm:
  "md5_step' m (a, b, c, d) (i, k, s, g) =
     (d, take_bit 32 (b + take_bit 32 (rotl32 (take_bit 32
           (take_bit 32 (md5_mix i b c d) + a + k + m ! g)) s)), b, c)"
  by (simp add: md5_step'_def take_bit_word_eq_self)

lemma md5_blocks_single: "length blk = 64 \<Longrightarrow> md5_blocks st blk = md5_block st blk"
  by (simp add: md5_blocks.simps [of st blk] md5_blocks.simps [of _ "[]"])

lemma md5_hey_body:
  \<open>md5_Sum (hey_body) =
     [174, 237, 23, 84, 196, 67, 62, 70, 238, 229, 154, 68, 195, 55, 168, 254]\<close>
proof -
  have pad: \<open>md5_pad (map of_char (hey_body)) =
     [123, 34, 104, 101, 121, 34, 58, 123, 34, 118, 97, 108, 117, 101, 34, 58,
      49, 44, 34, 116, 105, 109, 101, 115, 116, 97, 109, 112, 34, 58, 53, 44,
      34, 116, 116, 108, 34, 58, 45, 49, 125, 125, 128, 0, 0, 0, 0, 0,
      0, 0, 0, 0, 0, 0, 0, 0, 80, 1, 0, 0, 0, 0, 0, 0]\<close>
    by (simp add: md5_pad_def upt_eval replicate_numeral Let_def hey_body_def)
  have words: "map (\<lambda>j. le32 (take 4 (drop (4 * j)
     [123, 34, 104, 101, 121, 34, 58, 123, 34, 118, 97, 108, 117, 101, 34, 58,
      49, 44, 34, 116, 105, 109, 101, 115, 116, 97, 109, 112, 34, 58, 53, 44,
      34, 116, 116, 108, 34, 58, 45, 49, 125, 125, 128, 0, 0, 0, 0, 0,
      0, 0, 0, 0, 0, 0, 0, 0, 80, 1, 0, 0, 0, 0, 0, 0])))
     [0..<16] =
     [0x6568227b, 0x7b3a2279, 0x6c617622, 0x3a226575, 0x74222c31, 0x73656d69,
      0x706d6174, 0x2c353a22, 0x6c747422, 0x312d3a22, 0x00807d7d, 0x00000000,
      0x00000000, 0x00000000, 0x00000150, 0x00000000]"
    by (simp add: upt_eval le32_def take_numeral_Cons drop_numeral_Cons)
  have rounds: "foldl (md5_step
     [0x6568227b, 0x7b3a2279, 0x6c617622, 0x3a226575, 0x74222c31, 0x73656d69,
      0x706d6174, 0x2c353a22, 0x6c747422, 0x312d3a22, 0x00807d7d, 0x00000000,
      0x00000000, 0x00000000, 0x00000150, 0x00000000])
     (0x67452301, 0xefcdab89, 0x98badcfe, 0x10325476) [0..<64] =
     (0xecd2caad, 0x5670983b, 0xabe008f0, 0xee75e34d)"
    by (subst md5_rounds_table)
      (simp add: md5_table_def md5_K_def md5_s_def md5_g_def upt_eval
        md5_step'_norm md5_mix_def rotl32_def)
  show ?thesis
    unfolding md5_Sum_def pad
    by (simp add: md5_blocks_single md5_block_def words rounds bytes32_def)
qed

lemma md5_hey_body_flipped:
  \<open>md5_Sum (hey_body[16 := CHR ''2'']) =
     [195, 196, 39, 121, 101, 52, 38, 189, 110, 228, 17, 237, 229, 134, 26, 255]\<close>
proof -
  have pad: \<open>md5_pad (map of_char (hey_body[16 := CHR ''2''])) =
     [123, 34, 104, 101, 121, 34, 58, 123, 34, 118, 97, 108, 117, 101, 34, 58,
      50, 44, 34, 116, 105, 109, 101, 115, 116, 97, 109, 112, 34, 58, 53, 44,
      34, 116, 116, 108, 34, 58, 45, 49, 125, 125, 128, 0, 0, 0, 0, 0,
      0, 0, 0, 0, 0, 0, 0, 0, 80, 1, 0, 0, 0, 0, 0, 0]\<close>
    by (simp add: md5_pad_def upt_eval replicate_numeral Let_def hey_body_def)
  have words: "map (\<lambda>j. le32 (take 4 (drop (4 * j)
     [123, 34, 104, 101, 121, 34, 58, 123, 34, 118, 97, 108, 117, 101, 34, 58,
      50, 44, 34, 116, 105, 109, 101, 115, 116, 97, 109, 112, 34, 58, 53, 44,
      34, 116, 116, 108, 34, 58, 45, 49, 125, 125, 128, 0, 0, 0, 0, 0,
      0, 0, 0, 0, 0, 0, 0, 0, 80, 1, 0, 0, 0, 0, 0, 0])))
     [0..<16] =
     [0x6568227b, 0x7b3a2279, 0x6c617622, 0x3a226575, 0x74222c32, 0x73656d69,
      0x706d6174, 0x2c353a22, 0x6c747422, 0x312d3a22, 0x00807d7d, 0x00000000,
      0x00000000, 0x00000000, 0x00000150, 0x00000000]"
    by (simp add: upt_eval le32_def take_numeral_Cons drop_numeral_Cons)
  have rounds: "foldl (md5_step
     [0x6568227b, 0x7b3a2279, 0x6c617622, 0x3a226575, 0x74222c32, 0x73656d69,
      0x706d6174, 0x2c353a22, 0x6c747422, 0x312d3a22, 0x00807d7d, 0x00000000,
      0x00000000, 0x00000000, 0x00000150, 0x00000000])
     (0x67452301, 0xefcdab89, 0x98badcfe, 0x10325476) [0..<64] =
     (0x11e2a1c2, 0xcd5888dc, 0x54570770, 0xeee8326f)"
    by (subst md5_rounds_table)
      (simp add: md5_table_def md5_K_def md5_s_def md5_g_def upt_eval
        md5_step'_norm md5_mix_def rotl32_def)
  show ?thesis
    unfolding md5_Sum_def pad
    by (simp add: md5_blocks_single md5_block_def words rounds bytes32_def)
qed

subsection \<open>ToDisk\<close>

lemma dimension_upd [simp]:
  "dimension (kv\<lparr>shardDimensions := (shardDimensions kv)(i \<mapsto> n)\<rparr>) j =
     (if j = i then n else dimension kv j)"
  by (simp add: dimension_def)

lemma ToDisk_loop_write_error [simp]:
  "write_error (snd (snd (ToDisk_loop lib is kv fs))) = write_error fs"
proof (induction "is" arbitrary: kv fs)
  case Nil
  then show ?case by simp
next
  case (Cons i "is")
  then show ?case
    by (auto simp: Let_def split: sum.splits dest: Flush_frame)
qed

text \<open>A file is left alone unless it is the file of a shard the pass flushes.\<close>

lemma ToDisk_loop_untouched:
  assumes "dir \<noteq> Directory kv \<or> j \<notin> set is
           \<or> dimension kv j = getLength (Shards kv ! j) \<or> getLength (Shards kv ! j) = 0"
  shows "file_at (snd (snd (ToDisk_loop lib is kv fs))) (dir, j) = file_at fs (dir, j)"
  using assms
proof (induction "is" arbitrary: kv fs)
  case Nil
  then show ?case by simp
next
  case (Cons i "is")
  show ?case
  proof (cases "dimension kv i = getLength (Shards kv ! i)")
    case True
    then show ?thesis using Cons.prems Cons.IH [of kv fs] by auto
  next
    case False
    let ?kv = "kv\<lparr>shardDimensions := (shardDimensions kv)(i \<mapsto> getLength (Shards kv ! i))\<rparr>"
    show ?thesis
    proof (cases "Flush lib (Shards kv ! i) (Directory kv, i) fs")
      case (Inl err)
      then show ?thesis using False by (simp add: Let_def)
    next
      case (Inr fs')
      have pre: "dir \<noteq> Directory ?kv \<or> j \<notin> set is
           \<or> dimension ?kv j = getLength (Shards ?kv ! j) \<or> getLength (Shards ?kv ! j) = 0"
        using Cons.prems by auto
      have same: "file_at fs' (dir, j) = file_at fs (dir, j)"
      proof (cases "(dir, j) = (Directory kv, i)")
        case True
        then have "getLength (Shards kv ! i) = 0" using Cons.prems False by auto
        then show ?thesis using Inr by (simp add: Flush_empty)
      next
        case False
        then show ?thesis using Flush_frame [OF Inr] by blast
      qed
      have "file_at (snd (snd (ToDisk_loop lib is ?kv fs'))) (dir, j) = file_at fs' (dir, j)"
        using pre by (rule Cons.IH)
      then show ?thesis using False Inr same by (simp add: Let_def)
    qed
  qed
qed

lemma ToDisk_loop_skips:
  "\<forall>i \<in> set is. dimension kv i = getLength (Shards kv ! i) \<Longrightarrow>
     ToDisk_loop lib is kv fs = (None, kv, fs)"
  by (induction "is") simp_all

lemma ToDisk_loop_dimension_other:
  "j \<notin> set is \<Longrightarrow> dimension (fst (snd (ToDisk_loop lib is kv fs))) j = dimension kv j"
  by (induction "is" arbitrary: kv fs) (auto simp: Let_def split: sum.splits)

lemma ToDisk_loop_dimension:
  "fst (ToDisk_loop lib is kv fs) = None \<Longrightarrow> i \<in> set is \<Longrightarrow>
     dimension (fst (snd (ToDisk_loop lib is kv fs))) i = getLength (Shards kv ! i)"
proof (induction "is" arbitrary: kv fs)
  case Nil
  then show ?case by simp
next
  case (Cons j js)
  show ?case
  proof (cases "dimension kv j = getLength (Shards kv ! j)")
    case True
    show ?thesis
    proof (cases "i \<in> set js")
      case True
      then show ?thesis using Cons \<open>dimension kv j = getLength (Shards kv ! j)\<close> by simp
    next
      case False
      then have "i = j" using Cons.prems by simp
      then show ?thesis using True False ToDisk_loop_dimension_other [of i js lib kv fs] by simp
    qed
  next
    case False
    let ?kv = "kv\<lparr>shardDimensions := (shardDimensions kv)(j \<mapsto> getLength (Shards kv ! j))\<rparr>"
    obtain fs' where fl: "Flush lib (Shards kv ! j) (Directory kv, j) fs = Inr fs'"
      using Cons.prems(1) False by (cases "Flush lib (Shards kv ! j) (Directory kv, j) fs")
        (simp_all add: Let_def)
    have n: "fst (ToDisk_loop lib js ?kv fs') = None"
      using Cons.prems(1) False fl by (simp add: Let_def)
    show ?thesis
    proof (cases "i \<in> set js")
      case True
      then show ?thesis using Cons.IH [OF n True] False fl by (simp add: Let_def)
    next
      case nin: False
      then have "i = j" using Cons.prems by simp
      then show ?thesis
        using False fl nin ToDisk_loop_dimension_other [of i js lib ?kv fs'] by (simp add: Let_def)
    qed
  qed
qed

text \<open>After a pass without error, the file of every shard it flushed holds its snapshot.\<close>

lemma ToDisk_loop_flushed:
  "fst (ToDisk_loop lib is kv fs) = None \<Longrightarrow> i \<in> set is \<Longrightarrow>
   dimension kv i \<noteq> getLength (Shards kv ! i) \<Longrightarrow> getLength (Shards kv ! i) \<noteq> 0 \<Longrightarrow>
     \<exists>body. json_Marshal lib (Data (Shards kv ! i)) = Inr body
       \<and> file_at (snd (snd (ToDisk_loop lib is kv fs))) (Directory kv, i) = Content (snapshot body)"
proof (induction "is" arbitrary: kv fs)
  case Nil
  then show ?case by simp
next
  case (Cons j js)
  show ?case
  proof (cases "dimension kv j = getLength (Shards kv ! j)")
    case True
    then have "i \<noteq> j" using Cons.prems by auto
    then show ?thesis using Cons True by simp
  next
    case False
    let ?kv = "kv\<lparr>shardDimensions := (shardDimensions kv)(j \<mapsto> getLength (Shards kv ! j))\<rparr>"
    obtain fs' where fl: "Flush lib (Shards kv ! j) (Directory kv, j) fs = Inr fs'"
      using Cons.prems(1) False by (cases "Flush lib (Shards kv ! j) (Directory kv, j) fs")
        (simp_all add: Let_def)
    have n: "fst (ToDisk_loop lib js ?kv fs') = None"
      using Cons.prems(1) False fl by (simp add: Let_def)
    have r: "ToDisk_loop lib (j # js) kv fs = ToDisk_loop lib js ?kv fs'"
      using False fl by (simp add: Let_def)
    show ?thesis
    proof (cases "i = j")
      case True
      obtain body where b: "json_Marshal lib (Data (Shards kv ! j)) = Inr body"
        "fs' = fs\<lparr>file_at := (file_at fs)((Directory kv, j) := Content (snapshot body))\<rparr>"
        using Flush_Inr [OF fl] Cons.prems(4) True by auto
      have "file_at (snd (snd (ToDisk_loop lib js ?kv fs'))) (Directory kv, j)
              = file_at fs' (Directory kv, j)"
        by (rule ToDisk_loop_untouched) simp
      then show ?thesis using b True r by simp
    next
      case ne: False
      then have "i \<in> set js" using Cons.prems(2) by simp
      moreover have "dimension ?kv i \<noteq> getLength (Shards ?kv ! i)" using Cons.prems(3) ne by simp
      moreover have "getLength (Shards ?kv ! i) \<noteq> 0" using Cons.prems(4) by simp
      ultimately show ?thesis using Cons.IH [OF n, of ] r by simp
    qed
  qed
qed

lemma ToDisk_untouched:
  "dimension kv i = getLength (Shards kv ! i) \<or> getLength (Shards kv ! i) = 0 \<Longrightarrow>
     file_at (snd (snd (ToDisk lib kv fs))) (Directory kv, i) = file_at fs (Directory kv, i)"
  by (simp add: ToDisk_def ToDisk_loop_untouched)

lemma ToDisk_dimension:
  "ToDisk lib kv fs = (None, kv', fs') \<Longrightarrow> i < length (Shards kv) \<Longrightarrow>
     dimension kv' i = getLength (Shards kv ! i)"
  using ToDisk_loop_dimension [of lib "[0..<length (Shards kv)]" kv fs i]
  by (simp add: ToDisk_def)

lemma ToDisk_flushed:
  "ToDisk lib kv fs = (None, kv', fs') \<Longrightarrow> i < length (Shards kv) \<Longrightarrow>
   dimension kv i \<noteq> getLength (Shards kv ! i) \<Longrightarrow> getLength (Shards kv ! i) \<noteq> 0 \<Longrightarrow>
     \<exists>body. json_Marshal lib (Data (Shards kv ! i)) = Inr body
       \<and> file_at fs' (Directory kv, i) = Content (snapshot body)"
  using ToDisk_loop_flushed [of lib "[0..<length (Shards kv)]" kv fs i]
  by (simp add: ToDisk_def)

lemma ToDisk_skips:
  "\<forall>i < length (Shards kv). dimension kv i = getLength (Shards kv ! i) \<Longrightarrow>
     ToDisk lib kv fs = (None, kv, fs)"
  by (simp add: ToDisk_def ToDisk_loop_skips)

lemma ToDisk_result:
  "ToDisk lib kv fs = (r, kv', fs') \<Longrightarrow>
     Shards kv' = Shards kv \<and> Directory kv' = Directory kv \<and> write_error fs' = write_error fs"
  using ToDisk_frame [of lib kv fs] ToDisk_loop_write_error [of lib "[0..<length (Shards kv)]" kv fs]
  by (simp add: ToDisk_def)

lemma getLength_Put_present:
  assumes "stored kv k = Some e" and "Put now k v ttl kv = Inr kv'"
  shows "getLength (Shards kv' ! j) = getLength (Shards kv ! j)"
proof -
  obtain i where i: "shardAt kv k = Inr i" "i < length (Shards kv)"
    "fmlookup (Data (Shards kv ! i)) k = Some e"
    using stored_SomeD [OF assms(1)] by blast
  have "k |\<in>| fmdom (Data (Shards kv ! i))" using i(3) by (simp add: fmlookup_dom_iff)
  then have "finsert k (fmdom (Data (Shards kv ! i))) = fmdom (Data (Shards kv ! i))"
    by blast
  then show ?thesis
    using Put_Inr [OF assms(2)] i by (cases "j = i") (auto simp: getLength_def)
qed

lemma ToDisk_loop_failed_flush:
  "dimension kv i \<noteq> getLength (Shards kv ! i) \<Longrightarrow>
   Flush lib (Shards kv ! i) (Directory kv, i) fs = Inl err \<Longrightarrow>
     ToDisk_loop lib (i # is) kv fs =
       (Some err, kv\<lparr>shardDimensions := (shardDimensions kv)(i \<mapsto> getLength (Shards kv ! i))\<rparr>, fs)"
  by (simp add: Let_def)

lemma shardDimensions_only_ToDisk:
  "apply_op lib x (kv, fs) = Inr (kv', fs') \<Longrightarrow> x \<noteq> OpToDisk \<Longrightarrow>
     shardDimensions kv' = shardDimensions kv"
  by (cases x) (auto split: sum.splits error.splits dest: Put_frame Delete_frame)

lemma Delete_all_frame:
  "Delete_all keys kv = Inr kv' \<Longrightarrow>
     length (Shards kv') = length (Shards kv) \<and> Directory kv' = Directory kv
     \<and> shardDimensions kv' = shardDimensions kv"
proof (induction keys arbitrary: kv)
  case Nil
  then show ?case by simp
next
  case (Cons key keys)
  then obtain kv1 where d: "Delete key kv = Inr kv1" and r: "Delete_all keys kv1 = Inr kv'"
    by (auto split: sum.splits)
  show ?case using Cons.IH [OF r] Delete_length [OF d] Delete_frame [OF d] by simp
qed

lemma Put_all_frame:
  "Put_all ps kv = Inr kv' \<Longrightarrow>
     length (Shards kv') = length (Shards kv) \<and> Directory kv' = Directory kv
     \<and> shardDimensions kv' = shardDimensions kv"
proof (induction ps arbitrary: kv)
  case Nil
  then show ?case by simp
next
  case (Cons p ps)
  obtain now key v ttl where p: "p = (now, key, v, ttl)" by (cases p) auto
  with Cons.prems obtain kv1 where d: "Put now key v ttl kv = Inr kv1"
    and r: "Put_all ps kv1 = Inr kv'"
    by (auto split: sum.splits)
  show ?case using Cons.IH [OF r] Put_length [OF d] Put_frame [OF d] by simp
qed

lemma Put_all_stored:
  "Put_all ps kv = Inr kv' \<Longrightarrow> stored kv k \<noteq> None \<or> k \<in> (\<lambda>p. fst (snd p)) ` set ps \<Longrightarrow>
     stored kv' k \<noteq> None"
proof (induction ps arbitrary: kv)
  case Nil
  then show ?case by simp
next
  case (Cons p ps)
  obtain now key v ttl where p: "p = (now, key, v, ttl)" by (cases p) auto
  with Cons.prems obtain kv1 where d: "Put now key v ttl kv = Inr kv1"
    and r: "Put_all ps kv1 = Inr kv'"
    by (auto split: sum.splits)
  have "stored kv1 k \<noteq> None \<or> k \<in> (\<lambda>p. fst (snd p)) ` set ps"
  proof (cases "k = key")
    case True
    then show ?thesis using stored_Put_same [OF d] by simp
  next
    case False
    then show ?thesis using stored_Put_other [OF d False] Cons.prems(2) p by auto
  qed
  then show ?case by (rule Cons.IH [OF r])
qed

lemma NewKVStore_loop_frame:
  "Directory (NewKVStore_loop is c) = Directory c"
  "dimension (NewKVStore_loop is c) j = (if j \<in> set is then 0 else dimension c j)"
  by (induction "is" arbitrary: c) (auto simp: dimension_def)

lemma NewKVStore_Inr:
  "NewKVStore n dir = Inr kv \<Longrightarrow>
     0 \<le> n \<and> length (Shards kv) = nat n \<and> Directory kv = dir \<and> (\<forall>j. dimension kv j = 0)"
proof -
  assume a: "NewKVStore n dir = Inr kv"
  let ?c = "\<lparr>Shards = [], Directory = dir, shardDimensions = Map.empty\<rparr> :: 'a KVStore"
  have n: "0 \<le> n" and kv: "kv = NewKVStore_loop [0..<nat n] ?c"
    using a by (auto simp: NewKVStore_def split: if_splits)
  have "dimension ?c j = 0" for j by (simp add: dimension_def)
  then have "\<forall>j. dimension kv j = 0" by (simp add: kv NewKVStore_loop_frame)
  then show ?thesis using n by (simp add: kv NewKVStore_loop_frame)
qed

lemma getLength_reloaded [simp]: "fcard (fmdom (reloaded conv d)) = fcard (fmdom d)"
  by (simp add: reloaded_def)

lemma expired_reloaded [simp]: "expired now (e\<lparr>Value := x\<rparr>) = expired now e"
  by (simp add: expired_def)

lemma hex_Decode_brace: "hex_DecodeString (CHR ''{'' # cs) = Inl (InvalidByteError CHR ''{'')"
  by (cases cs) (simp_all add: fromHexChar_def)

lemma load_file_truncated:
  assumes "body \<noteq> []" and "hd body = CHR ''{''" and "newline \<notin> set body"
    and "m < length (snapshot body)"
  shows "\<exists>r. load_file lib (Content (take m (snapshot body))) = Inl r"
proof (cases "m \<le> length body")
  case True
  then have t: "take m (snapshot body) = take m body" by (simp add: snapshot_def)
  have "newline \<notin> set (take m body)" using assms(3) by (auto dest: in_set_takeD)
  then have sp: "strings_Split (take m body) = [take m body]" by (rule strings_Split_no_newline)
  show ?thesis
  proof (cases m)
    case 0
    have "length (md5_Sum []) \<noteq> length ([] :: 8 word list)" by simp
    then have "md5_Sum [] \<noteq> []" by fastforce
    then show ?thesis using 0 by (simp add: load_file_def)
  next
    case (Suc k)
    then have "take m body = CHR ''{'' # take k (tl body)"
      using assms(1,2) by (cases body) simp_all
    then show ?thesis using sp t by (simp add: load_file_def hex_Decode_brace)
  qed
next
  case False
  define j where "j = m - Suc (length body)"
  let ?h = "hex_EncodeToString (md5_Sum body)"
  have j: "j < 32" using assms(4) False by (simp add: j_def snapshot_def)
  have t: "take m (snapshot body) = body @ newline # take j ?h"
    using False by (simp add: snapshot_def j_def take_Cons')
  have nl: "newline \<notin> set (take j ?h)"
    using hex_Encode_no_newline [of "md5_Sum body"] by (auto dest: in_set_takeD)
  have len: "length (take j ?h) = j" using j by simp
  show ?thesis
  proof (cases "hex_DecodeString (take j ?h)")
    case (Inl err)
    then show ?thesis using t nl by (simp add: load_file_def split_snapshot)
  next
    case (Inr bs)
    then have "2 * length bs = j" using length_hex_Decode [OF Inr] len by simp
    then have "length bs \<noteq> 16" using j by auto
    then have "md5_Sum body \<noteq> bs" using length_md5_Sum [of body] by auto
    then show ?thesis using t nl Inr by (simp add: load_file_def split_snapshot)
  qed
qed

subsection \<open>The example store on disk\<close>

lemma getLength_hey [simp]:
  "getLength \<lparr>Data = hey_data\<rparr> = 1" "getLength (NewShard :: gvalue Shard) = 0"
  by (simp_all add: getLength_def hey_data_def NewShard_def fcard_finsert_if fcard_fempty)

lemma NewKVStore_two: "NewKVStore 2 ''.quache-test/'' = Inr two_shards"
  by (simp add: NewKVStore_def two_shards_def upt_eval)

lemma Put_hey: "Put 5 ''hey'' (GoInt 1) None two_shards = Inr hey_store"
proof -
  have "length (Shards two_shards) = 2" by (simp add: two_shards_def)
  then have "shardAt two_shards ''hey'' = Inr 0" by (rule shardAt_hey)
  then show ?thesis
    by (simp add: Put_def hey_store_def two_shards_def NewShard_def NewShardEntry_def
        hey_data_def hey_entry_def)
qed

lemma ToDisk_hey: "ToDisk hey_lib hey_store empty_dir = (None, hey_flushed, hey_dir)"
  by (simp add: ToDisk_def upt_eval numeral_2_eq_2 Let_def hey_store_def two_shards_def
      dimension_def Flush_def hey_lib_def os_WriteFile_def empty_dir_def hey_flushed_def
      hey_dir_def snapshot_def)

lemma stored_hey_flushed: "stored hey_flushed ''hey'' = Some hey_entry"
proof -
  have "length (Shards hey_flushed) = 2" by (simp add: hey_flushed_def hey_store_def)
  then have "shardAt hey_flushed ''hey'' = Inr 0" by (rule shardAt_hey)
  then show ?thesis by (simp add: stored_def hey_flushed_def hey_store_def hey_data_def)
qed

lemma Delete_hey: "Delete_all [''hey''] hey_flushed = Inr hey_deleted"
proof -
  have "length (Shards hey_flushed) = 2" by (simp add: hey_flushed_def hey_store_def)
  then have "shardAt hey_flushed ''hey'' = Inr 0" by (rule shardAt_hey)
  then show ?thesis
    by (simp add: Delete_def hey_flushed_def hey_store_def hey_deleted_def hey_data_def
        NewShard_def fmdrop_fmupd_same)
qed

lemma hey_codec:
  "json_Marshal hey_lib hey_data = Inr hey_body"
  "json_Unmarshal hey_lib hey_body = Inr (reloaded json_reload hey_data)"
  by (simp_all add: hey_lib_def)

lemma hey_body_shape: "hey_body \<noteq> [] \<and> hd hey_body = CHR ''{'' \<and> newline \<notin> set hey_body"
  by (simp add: hey_body_def)

lemma hey_store_frame [simp]:
  "Shards hey_store = [\<lparr>Data = hey_data\<rparr>, NewShard]"
  "Directory hey_store = ''.quache-test/''"
  "dimension hey_store j = 0"
  by (simp_all add: hey_store_def two_shards_def dimension_def)

lemma load_absent [simp]: "load_file lib (file_at empty_dir name) = Inr fmempty"
  by (simp add: load_file_def empty_dir_def)

lemma load_hey_dir_1 [simp]: "load_file lib (file_at hey_dir (''.quache-test/'', Suc 0)) = Inr fmempty"
  by (simp add: load_file_def hey_dir_def empty_dir_def)

lemma ToDisk_hey_deleted:
  "ToDisk hey_lib hey_deleted hey_dir =
     (None, hey_deleted\<lparr>shardDimensions := (shardDimensions hey_deleted)(0 \<mapsto> 0)\<rparr>, hey_dir)"
  by (simp add: ToDisk_def upt_eval numeral_2_eq_2 Let_def hey_deleted_def hey_flushed_def
      hey_store_def two_shards_def dimension_def Flush_def)

subsection \<open>Reloading a flushed store\<close>

text \<open>
  A string that is valid UTF-8 comes back from JSON as it was; the byte \<open>0xFF\<close> comes back
  as U+FFFD. Both tabulated codecs do what the round trip of C4 asks of \<^verbatim>\<open>encoding/json\<close>
  (\<open>hey_lib_json\<close>, \<open>xff_lib_json\<close>).
\<close>

lemma json_string_valid: "utf8_ValidString s \<Longrightarrow> json_string s = s"
proof (induction s rule: json_string.induct)
  case 1
  then show ?case by simp
next
  case (2 c cs)
  let ?n = "utf8_width (c # cs)"
  from "2.prems" have n: "?n \<noteq> 0" and v: "utf8_ValidString (drop (?n - 1) cs)"
    by (simp_all add: Let_def)
  have "json_string (drop (?n - 1) cs) = drop (?n - 1) cs"
    using "2.IH"(2) [OF refl n v] .
  moreover have "drop (?n - 1) cs = drop ?n (c # cs)"
    using n by (cases ?n) simp_all
  ultimately show ?case using n by (simp add: Let_def del: take_Suc_Cons drop_Suc_Cons)
qed

lemma json_string_xff: "json_string [CHR 0xFF] = [CHR 0xEF, CHR 0xBF, CHR 0xBD]"
  by (simp add: utf8_width_def utf8_first_def)

lemma utf8_Valid_hey: "utf8_ValidString ''hey''"
  by (simp add: utf8_width_def)

lemma crc_xff: "ChecksumIEEE [CHR 0xFF] = 0xFF000000"
  by (simp add: crc32_eval)

lemma shardAt_xff: "length (Shards kv) = 2 \<Longrightarrow> shardAt kv [CHR 0xFF] = Inr 0"
  by (simp add: shardAt_eq crc_xff)

lemma Shards_NewKVStore_loop:
  "Shards (NewKVStore_loop is c) = Shards c @ replicate (length is) NewShard"
  by (induction "is" arbitrary: c) (simp_all add: replicate_app_Cons_same)

lemma NewKVStore_empty:
  "NewKVStore n dir = Inr kv \<Longrightarrow> i < length (Shards kv) \<Longrightarrow> Data (Shards kv ! i) = fmempty"
  by (auto simp: NewKVStore_def Shards_NewKVStore_loop NewShard_def split: if_splits)

lemma Put_keys:
  assumes "Put now key v ttl kv = Inr kv'" and "k |\<in>| fmdom (Data (Shards kv' ! i))"
    and "i < length (Shards kv)"
  shows "k = key \<or> k |\<in>| fmdom (Data (Shards kv ! i))"
proof -
  obtain j where j: "j < length (Shards kv)"
    "kv' = kv\<lparr>Shards := (Shards kv)
               [j := (Shards kv ! j)
                  \<lparr>Data := fmupd key
                     (NewShardEntry now v
                        (case ttl of None \<Rightarrow> Finite (- 1) 0 | Some t \<Rightarrow> f64_mul t (Finite 1000 0)))
                     (Data (Shards kv ! j))\<rparr>]\<rparr>"
    using Put_Inr [OF assms(1)] by blast
  show ?thesis
    using assms(2,3) j(1) unfolding j(2) by (cases "i = j") auto
qed

lemma Put_all_keys:
  "Put_all ps kv = Inr kv' \<Longrightarrow> k |\<in>| fmdom (Data (Shards kv' ! i)) \<Longrightarrow> i < length (Shards kv) \<Longrightarrow>
     k \<in> (\<lambda>p. fst (snd p)) ` set ps \<or> k |\<in>| fmdom (Data (Shards kv ! i))"
proof (induction ps arbitrary: kv)
  case Nil
  then show ?case by simp
next
  case (Cons p ps)
  obtain now key v ttl where p: "p = (now, key, v, ttl)" by (cases p) auto
  with Cons.prems obtain kv1 where d: "Put now key v ttl kv = Inr kv1"
    and r: "Put_all ps kv1 = Inr kv'"
    by (auto split: sum.splits)
  have "i < length (Shards kv1)" using Cons.prems(3) Put_length [OF d] by simp
  from Cons.IH [OF r Cons.prems(2) this]
  show ?case
  proof
    assume "k \<in> (\<lambda>p. fst (snd p)) ` set ps"
    then show ?thesis by auto
  next
    assume "k |\<in>| fmdom (Data (Shards kv1 ! i))"
    then have "k = key \<or> k |\<in>| fmdom (Data (Shards kv ! i))"
      using Put_keys [OF d _ Cons.prems(3)] by blast
    then show ?thesis using p by auto
  qed
qed

lemma reload_after_ToDisk:
  assumes new: "NewKVStore n dir = Inr kv0"
    and puts: "Put_all ps kv0 = Inr S"
    and flush: "ToDisk lib S fs = (None, S1, fs1)"
    and codec: "\<forall>i < length (Shards S). \<forall>body.
                  json_Marshal lib (Data (Shards S ! i)) = Inr body \<longrightarrow>
                  json_Unmarshal lib body = Inr (reloaded conv (Data (Shards S ! i)))"
    and dir: "\<forall>i < length (Shards S). getLength (Shards S ! i) = 0 \<longrightarrow>
                  (\<exists>d. load_file lib (file_at fs (dir, i)) = Inr d)"
  shows "\<exists>S'. NewKVStoreFromDisk lib n dir fs1 = Inr S'
           \<and> (\<forall>k \<in> (\<lambda>p. fst (snd p)) ` set ps. \<forall>t.
                 Get t S' k = map_sum id conv (Get t S k))"
proof -
  have k0: "0 \<le> n" "length (Shards kv0) = nat n" "Directory kv0 = dir" "\<forall>j. dimension kv0 j = 0"
    using NewKVStore_Inr [OF new] by simp_all
  have S: "length (Shards S) = nat n" "Directory S = dir" "\<forall>j. dimension S j = 0"
    using Put_all_frame [OF puts] k0 by (simp_all add: dimension_def)
  have load: "load_file lib (file_at fs1 (dir, i)) =
                (if getLength (Shards S ! i) = 0 then load_file lib (file_at fs (dir, i))
                 else Inr (reloaded conv (Data (Shards S ! i))))" if "i < nat n" for i
  proof (cases "getLength (Shards S ! i) = 0")
    case True
    then have "file_at (snd (snd (ToDisk lib S fs))) (Directory S, i) = file_at fs (Directory S, i)"
      by (intro ToDisk_untouched) simp
    then show ?thesis using True flush S by simp
  next
    case False
    have "i < length (Shards S)" using that S by simp
    moreover have "dimension S i \<noteq> getLength (Shards S ! i)" using False S by simp
    ultimately obtain body where "json_Marshal lib (Data (Shards S ! i)) = Inr body"
      "file_at fs1 (Directory S, i) = Content (snapshot body)"
      using ToDisk_flushed [OF flush _ _ False] by blast
    then show ?thesis using False codec that S by (simp add: load_file_snapshot)
  qed
  have "\<forall>j < nat n. \<exists>d. load_file lib (file_at fs1 (dir, j)) = Inr d"
    using load dir S by auto
  from NewKVStoreFromDisk_succeeds [OF this k0(1)]
  obtain S' where S': "NewKVStoreFromDisk lib n dir fs1 = Inr S'"
    "length (Shards S') = nat n"
    "\<forall>j < nat n. Data (Shards S' ! j) = projr (load_file lib (file_at fs1 (dir, j)))"
    by auto
  have "Get t S' k = map_sum id conv (Get t S k)"
    if "k \<in> (\<lambda>p. fst (snd p)) ` set ps" for k t
  proof -
    have "stored S k \<noteq> None" using Put_all_stored [OF puts] that by blast
    then obtain e where e: "stored S k = Some e" by auto
    then obtain i where i: "shardAt S k = Inr i" "i < length (Shards S)"
      "fmlookup (Data (Shards S ! i)) k = Some e"
      using stored_SomeD by blast
    then have "k |\<in>| fmdom (Data (Shards S ! i))" by (simp add: fmlookup_dom_iff)
    then have "fmdom (Data (Shards S ! i)) \<noteq> {||}" by auto
    then have ne: "getLength (Shards S ! i) \<noteq> 0" by (simp add: getLength_def)
    have "Data (Shards S' ! i) = reloaded conv (Data (Shards S ! i))"
      using S'(3) load [of i] ne i(2) S by simp
    moreover have "shardAt S' k = Inr i"
      using shardAt_cong [of S' S k] S'(2) S(1) i(1) by simp
    ultimately have "stored S' k = Some (e\<lparr>Value := conv (Value e)\<rparr>)"
      using i(3) by (simp add: stored_def reloaded_def)
    then show ?thesis using e by (simp add: Get_stored)
  qed
  then show ?thesis using S'(1) by blast
qed

lemma hey_lib_json:
  "\<forall>data body. (\<forall>k. k |\<in>| fmdom data \<longrightarrow> utf8_ValidString k)
       \<and> json_Marshal hey_lib data = Inr body \<longrightarrow>
     json_Unmarshal hey_lib body = Inr (reloaded json_reload data)"
  by (auto simp: hey_lib_def split: if_splits)

lemma utf8_invalid_xff: "\<not> utf8_ValidString [CHR 0xFF]"
  by (simp add: utf8_width_def utf8_first_def)

lemma xff_lib_json:
  "\<forall>data body. (\<forall>k. k |\<in>| fmdom data \<longrightarrow> utf8_ValidString k)
       \<and> json_Marshal xff_lib data = Inr body \<longrightarrow>
     json_Unmarshal xff_lib body = Inr (reloaded json_reload data)"
proof (intro allI impI)
  fix data body
  assume a: "(\<forall>k. k |\<in>| fmdom data \<longrightarrow> utf8_ValidString k)
       \<and> json_Marshal xff_lib data = Inr body"
  then have "data = xff_data" by (auto simp: xff_lib_def split: if_splits)
  then have "[CHR 0xFF] |\<in>| fmdom data" by (simp add: xff_data_def)
  then show "json_Unmarshal xff_lib body = Inr (reloaded json_reload data)"
    using a utf8_invalid_xff by blast
qed

lemma Put_xff: "Put 5 [CHR 0xFF] (GoInt 1) None two_shards = Inr xff_store"
proof -
  have "length (Shards two_shards) = 2" by (simp add: two_shards_def)
  then have "shardAt two_shards [CHR 0xFF] = Inr 0" by (rule shardAt_xff)
  then show ?thesis
    by (simp add: Put_def xff_store_def two_shards_def NewShard_def NewShardEntry_def
        xff_data_def hey_entry_def)
qed

lemma getLength_xff [simp]: "getLength \<lparr>Data = xff_data\<rparr> = 1"
  by (simp add: getLength_def xff_data_def fcard_finsert_if fcard_fempty)

lemma ToDisk_xff: "ToDisk xff_lib xff_store empty_dir = (None, xff_flushed, xff_dir)"
  by (simp add: ToDisk_def upt_eval numeral_2_eq_2 Let_def xff_store_def two_shards_def
      dimension_def Flush_def xff_lib_def os_WriteFile_def empty_dir_def xff_flushed_def
      xff_dir_def snapshot_def)

lemma fcard_xff_read: "fcard (fmdom xff_read) = 1"
  by (simp add: xff_read_def fcard_finsert_if fcard_fempty)

lemma NewKVStoreFromDisk_xff:
  "NewKVStoreFromDisk xff_lib 2 ''.quache-test/'' xff_dir = Inr xff_reloaded"
proof -
  have a: "load_file xff_lib (file_at xff_dir (''.quache-test/'', 0)) = Inr xff_read"
    by (simp add: xff_dir_def load_file_snapshot xff_lib_def)
  have b: "load_file xff_lib (file_at xff_dir (''.quache-test/'', Suc 0)) = Inr fmempty"
    by (simp add: load_file_def xff_dir_def empty_dir_def)
  show ?thesis
    by (simp add: NewKVStoreFromDisk_def upt_eval numeral_2_eq_2 NewKVStoreFromDisk_loop_step
        a b fcard_xff_read fcard_fempty xff_reloaded_def NewShard_def
        del: NewKVStoreFromDisk_loop.simps(2))
qed

subsection \<open>Snapshots\<close>

text \<open>
  C4. Take a store built by \<open>NewKVStore n dir\<close> and a list of \<open>Put\<close>s whose keys are valid
  UTF-8, a \<open>ToDisk\<close> that returns no error, and \<open>NewKVStoreFromDisk n dir\<close> on the directory
  it leaves. \<^verbatim>\<open>encoding/json\<close> is a parameter: for a map whose keys are valid UTF-8,
  \<^verbatim>\<open>json.Unmarshal\<close> returns what \<^verbatim>\<open>json.Marshal\<close> wrote, with the keys, timestamps and TTLs
  it was given and each value as \<open>json_reload\<close> gives it (numbers as float64). If the file
  of every empty shard, which \<open>ToDisk\<close> does not write, was absent or loadable, then the
  reload succeeds and \<open>Get\<close> of every inserted key returns on the new store what it returns
  on the old one, the value through \<open>json_reload\<close>, at every time.
\<close>

theorem snapshot_roundtrip:
  assumes new: "NewKVStore n dir = Inr kv0"
    and puts: "Put_all ps kv0 = Inr S"
    and keys: "\<forall>p \<in> set ps. utf8_ValidString (fst (snd p))"
    and flush: "ToDisk lib S fs = (None, S1, fs1)"
    and json: "\<forall>data body. (\<forall>k. k |\<in>| fmdom data \<longrightarrow> utf8_ValidString k)
                   \<and> json_Marshal lib data = Inr body \<longrightarrow>
                 json_Unmarshal lib body = Inr (reloaded json_reload data)"
    and dir: "\<forall>i < length (Shards S). getLength (Shards S ! i) = 0 \<longrightarrow>
                  (\<exists>d. load_file lib (file_at fs (dir, i)) = Inr d)"
  shows "\<exists>S'. NewKVStoreFromDisk lib n dir fs1 = Inr S'
           \<and> (\<forall>k \<in> (\<lambda>p. fst (snd p)) ` set ps. \<forall>t.
                 Get t S' k = map_sum id json_reload (Get t S k))"
proof -
  have len: "length (Shards S) = length (Shards kv0)"
    using Put_all_frame [OF puts] by simp
  have valid: "utf8_ValidString k" if "i < length (Shards S)" "k |\<in>| fmdom (Data (Shards S ! i))"
    for i k
  proof -
    have "k \<in> (\<lambda>p. fst (snd p)) ` set ps \<or> k |\<in>| fmdom (Data (Shards kv0 ! i))"
      using Put_all_keys [OF puts that(2)] that(1) len by simp
    moreover have "Data (Shards kv0 ! i) = fmempty"
      using NewKVStore_empty [OF new] that(1) len by simp
    ultimately show ?thesis using keys by auto
  qed
  have "\<forall>i < length (Shards S). \<forall>body.
          json_Marshal lib (Data (Shards S ! i)) = Inr body \<longrightarrow>
          json_Unmarshal lib body = Inr (reloaded json_reload (Data (Shards S ! i)))"
    using json valid by blast
  from reload_after_ToDisk [OF new puts flush this dir] show ?thesis .
qed

theorem snapshot_roundtrip_witness:
  "\<exists>S'.
     NewKVStore 2 ''.quache-test/'' = Inr two_shards
   \<and> Put_all [(5, ''hey'', GoInt 1, None)] two_shards = Inr hey_store
   \<and> utf8_ValidString ''hey''
   \<and> ToDisk hey_lib hey_store empty_dir = (None, hey_flushed, hey_dir)
   \<and> json_Marshal hey_lib hey_data = Inr hey_body
   \<and> json_Unmarshal hey_lib hey_body = Inr (reloaded json_reload hey_data)
   \<and> getLength (Shards hey_store ! 1) = 0
   \<and> load_file hey_lib (file_at empty_dir (''.quache-test/'', 1)) = Inr fmempty
   \<and> Get 100 hey_store ''hey'' = Inr (GoInt 1)
   \<and> NewKVStoreFromDisk hey_lib 2 ''.quache-test/'' hey_dir = Inr S'
   \<and> Get 100 S' ''hey'' = Inr (GoFloat64 (Finite 1 0))"
proof -
  have puts: "Put_all [(5, ''hey'', GoInt 1, None)] two_shards = Inr hey_store"
    by (simp add: Put_hey)
  have keys: "\<forall>p \<in> set [(5 :: 64 word, ''hey'', GoInt 1, None :: float64 option)].
      utf8_ValidString (fst (snd p))"
    by (simp add: utf8_Valid_hey del: utf8_ValidString.simps)
  have dir: "\<forall>i < length (Shards hey_store). getLength (Shards hey_store ! i) = 0 \<longrightarrow>
      (\<exists>d. load_file hey_lib (file_at empty_dir (''.quache-test/'', i)) = Inr d)"
    by simp
  have "length (Shards hey_store) = 2" by simp
  then have "shardAt hey_store ''hey'' = Inr 0" by (rule shardAt_hey)
  then have g: "Get 100 hey_store ''hey'' = Inr (GoInt 1)"
    by (simp add: Get_def hey_data_def hey_entry_def)
  have k: "''hey'' \<in> (\<lambda>p. fst (snd p)) ` set [(5 :: 64 word, ''hey'', GoInt 1, None :: float64 option)]"
    by simp
  obtain S' where S': "NewKVStoreFromDisk hey_lib 2 ''.quache-test/'' hey_dir = Inr S'"
    "\<forall>k \<in> (\<lambda>p. fst (snd p)) ` set [(5 :: 64 word, ''hey'', GoInt 1, None :: float64 option)].
       \<forall>t. Get t S' k = map_sum id json_reload (Get t hey_store k)"
    using snapshot_roundtrip [OF NewKVStore_two puts keys ToDisk_hey hey_lib_json dir] by blast
  then have "Get 100 S' ''hey'' = Inr (GoFloat64 (Finite 1 0))"
    using g k by (simp add: f64_round_exact)
  then show ?thesis
    using NewKVStore_two puts utf8_Valid_hey ToDisk_hey hey_codec g S'(1)
    by (simp del: utf8_ValidString.simps)
qed

text \<open>
  Without the restriction on the keys the round trip fails. \<open>Put\<close> of the key \<open>0xFF\<close> on
  two empty shards, \<open>ToDisk\<close> without error and \<open>NewKVStoreFromDisk\<close> on the same directory:
  \<open>Get\<close> of the key returns the value on the old store and \<open>KeyNotFoundError\<close> on the new
  one, whose shard 0 holds the entry under the key \<open>EF BF BD\<close>.
\<close>

theorem reload_loses_invalid_utf8_key:
  "NewKVStore 2 ''.quache-test/'' = Inr two_shards
   \<and> Put_all [(5, [CHR 0xFF], GoInt 1, None)] two_shards = Inr xff_store
   \<and> ToDisk xff_lib xff_store empty_dir = (None, xff_flushed, xff_dir)
   \<and> NewKVStoreFromDisk xff_lib 2 ''.quache-test/'' xff_dir = Inr xff_reloaded
   \<and> Get 100 xff_store [CHR 0xFF] = Inr (GoInt 1)
   \<and> Get 100 xff_reloaded [CHR 0xFF] = Inl (KeyNotFoundError [CHR 0xFF])
   \<and> fmlookup (Data (Shards xff_reloaded ! 0)) [CHR 0xEF, CHR 0xBF, CHR 0xBD]
       = Some \<lparr>Value = GoFloat64 (Finite 1 0), Timestamp = 5, Ttl = Finite (- 1) 0\<rparr>"
proof -
  have "length (Shards xff_store) = 2" by (simp add: xff_store_def)
  then have "shardAt xff_store [CHR 0xFF] = Inr 0" by (rule shardAt_xff)
  then have g: "Get 100 xff_store [CHR 0xFF] = Inr (GoInt 1)"
    by (simp add: Get_def xff_store_def xff_data_def hey_entry_def)
  have "length (Shards xff_reloaded) = 2" by (simp add: xff_reloaded_def)
  then have "shardAt xff_reloaded [CHR 0xFF] = Inr 0" by (rule shardAt_xff)
  then have g': "Get 100 xff_reloaded [CHR 0xFF] = Inl (KeyNotFoundError [CHR 0xFF])"
    by (simp add: Get_def xff_reloaded_def xff_read_def json_string_xff del: json_string.simps)
  have h: "fmlookup (Data (Shards xff_reloaded ! 0)) [CHR 0xEF, CHR 0xBF, CHR 0xBD]
       = Some \<lparr>Value = GoFloat64 (Finite 1 0), Timestamp = 5, Ttl = Finite (- 1) 0\<rparr>"
    by (simp add: xff_reloaded_def xff_read_def json_string_xff hey_entry_def f64_round_exact
        del: json_string.simps)
  show ?thesis
    using NewKVStore_two Put_xff ToDisk_xff NewKVStoreFromDisk_xff g g' h by simp
qed

text \<open>
  C5. Let \<open>Flush\<close> have written the file of shard \<open>i\<close>: the JSON text \<open>body\<close>, a newline
  and the hex MD5 of \<open>body\<close>, where \<open>body\<close> starts with a brace and holds no newline (as the
  text of a JSON object from \<^verbatim>\<open>json.Marshal\<close> does), and let the files of the shards before
  \<open>i\<close> load. Then \<open>NewKVStoreFromDisk\<close> fails with \<open>UnloadableShardError i\<close> on the
  directory with that file changed in either way: a byte of the body replaced, whenever
  the MD5 of the changed body is not the recorded digest (the check is this comparison);
  or the file cut short anywhere, which covers a digest that is truncated or removed.
  On the unchanged file it succeeds when \<^verbatim>\<open>json.Unmarshal\<close> accepts \<open>body\<close> and the later
  files load.
\<close>

theorem snapshot_integrity:
  assumes i: "i < nat n"
    and flush: "Flush lib s (dir, i) fs0 = Inr fs" and ne: "getLength s \<noteq> 0"
    and marshal: "json_Marshal lib (Data s) = Inr body"
    and shape: "body \<noteq> [] \<and> hd body = CHR ''{'' \<and> newline \<notin> set body"
    and before: "\<forall>j < i. \<exists>d. load_file lib (file_at fs (dir, j)) = Inr d"
  shows "file_at fs (dir, i) = Content (snapshot body)
       \<and> (\<forall>p c. p < length body \<and> md5_Sum (body[p := c]) \<noteq> md5_Sum body \<longrightarrow>
            NewKVStoreFromDisk lib n dir
              (fs\<lparr>file_at := (file_at fs)((dir, i) := Content ((snapshot body)[p := c]))\<rparr>)
            = Inl (UnloadableShardError i HashMismatch))
       \<and> (\<forall>m < length (snapshot body). \<exists>r.
            NewKVStoreFromDisk lib n dir
              (fs\<lparr>file_at := (file_at fs)((dir, i) := Content (take m (snapshot body)))\<rparr>)
            = Inl (UnloadableShardError i r))
       \<and> ((\<exists>d. json_Unmarshal lib body = Inr d)
            \<and> (\<forall>j < nat n. i < j \<longrightarrow> (\<exists>d. load_file lib (file_at fs (dir, j)) = Inr d)) \<longrightarrow>
            (\<exists>kv'. NewKVStoreFromDisk lib n dir fs = Inr kv'))"
proof (intro conjI allI impI)
  show fi: "file_at fs (dir, i) = Content (snapshot body)"
    using Flush_Inr [OF flush ne] marshal by auto
  have keep: "\<forall>j < i. \<exists>d. load_file lib
      (file_at (fs\<lparr>file_at := (file_at fs)((dir, i) := x)\<rparr>) (dir, j)) = Inr d" for x
    using before by simp
  {
    fix p c
    assume a: "p < length body \<and> md5_Sum (body[p := c]) \<noteq> md5_Sum body"
    then have "(snapshot body)[p := c] = body[p := c] @ newline # hex_EncodeToString (md5_Sum body)"
      by (simp add: snapshot_def list_update_append1)
    then have "load_file lib (file_at
        (fs\<lparr>file_at := (file_at fs)((dir, i) := Content ((snapshot body)[p := c]))\<rparr>) (dir, i))
        = Inl HashMismatch"
      using a by (simp add: load_file_corrupt)
    then show "NewKVStoreFromDisk lib n dir
              (fs\<lparr>file_at := (file_at fs)((dir, i) := Content ((snapshot body)[p := c]))\<rparr>)
            = Inl (UnloadableShardError i HashMismatch)"
      using keep i by (intro NewKVStoreFromDisk_fails) auto
  }
  {
    fix m
    assume "m < length (snapshot body)"
    then obtain r where "load_file lib (Content (take m (snapshot body)) :: file_state) = Inl r"
      using load_file_truncated [of body m lib] shape by blast
    then have "load_file lib (file_at
        (fs\<lparr>file_at := (file_at fs)((dir, i) := Content (take m (snapshot body)))\<rparr>) (dir, i))
        = Inl r"
      by simp
    then have "NewKVStoreFromDisk lib n dir
              (fs\<lparr>file_at := (file_at fs)((dir, i) := Content (take m (snapshot body)))\<rparr>)
            = Inl (UnloadableShardError i r)"
      using keep i by (intro NewKVStoreFromDisk_fails) auto
    then show "\<exists>r. NewKVStoreFromDisk lib n dir
              (fs\<lparr>file_at := (file_at fs)((dir, i) := Content (take m (snapshot body)))\<rparr>)
            = Inl (UnloadableShardError i r)"
      by blast
  }
  {
    assume a: "(\<exists>d. json_Unmarshal lib body = Inr d)
            \<and> (\<forall>j < nat n. i < j \<longrightarrow> (\<exists>d. load_file lib (file_at fs (dir, j)) = Inr d))"
    have "\<exists>d. load_file lib (file_at fs (dir, i)) = Inr d"
      using a fi by (auto simp: load_file_snapshot)
    then have "\<forall>j < nat n. \<exists>d. load_file lib (file_at fs (dir, j)) = Inr d"
      using a before by (metis linorder_neqE_nat)
    moreover have "0 \<le> n" using i by simp
    ultimately show "\<exists>kv'. NewKVStoreFromDisk lib n dir fs = Inr kv'"
      using NewKVStoreFromDisk_succeeds by blast
  }
qed

theorem snapshot_integrity_witness:
  "(0 :: nat) < nat 2
   \<and> Flush hey_lib \<lparr>Data = hey_data\<rparr> (''.quache-test/'', 0) empty_dir = Inr hey_dir
   \<and> getLength \<lparr>Data = hey_data\<rparr> \<noteq> 0
   \<and> json_Marshal hey_lib hey_data = Inr hey_body
   \<and> hey_body \<noteq> [] \<and> hd hey_body = CHR ''{'' \<and> newline \<notin> set hey_body
   \<and> file_at hey_dir (''.quache-test/'', 0) = Content (snapshot hey_body)
   \<and> 16 < length hey_body
   \<and> md5_Sum (hey_body[16 := CHR ''2'']) \<noteq> md5_Sum hey_body
   \<and> NewKVStoreFromDisk hey_lib 2 ''.quache-test/''
        (hey_dir\<lparr>file_at := (file_at hey_dir)
           ((''.quache-test/'', 0) := Content ((snapshot hey_body)[16 := CHR ''2'']))\<rparr>)
       = Inl (UnloadableShardError 0 HashMismatch)
   \<and> 43 < length (snapshot hey_body)
   \<and> (\<exists>r. NewKVStoreFromDisk hey_lib 2 ''.quache-test/''
        (hey_dir\<lparr>file_at := (file_at hey_dir)
           ((''.quache-test/'', 0) := Content (take 43 (snapshot hey_body)))\<rparr>)
       = Inl (UnloadableShardError 0 r))
   \<and> json_Unmarshal hey_lib hey_body = Inr (reloaded json_reload hey_data)
   \<and> load_file hey_lib (file_at hey_dir (''.quache-test/'', 1)) = Inr fmempty
   \<and> (\<exists>kv'. NewKVStoreFromDisk hey_lib 2 ''.quache-test/'' hey_dir = Inr kv')"
proof -
  have i: "(0 :: nat) < nat 2" by simp
  have fl: "Flush hey_lib \<lparr>Data = hey_data\<rparr> (''.quache-test/'', 0) empty_dir = Inr hey_dir"
    by (simp add: Flush_def hey_lib_def os_WriteFile_def empty_dir_def hey_dir_def snapshot_def)
  have ne: "getLength \<lparr>Data = hey_data\<rparr> \<noteq> 0" by simp
  have m: "json_Marshal hey_lib (Data \<lparr>Data = hey_data\<rparr>) = Inr hey_body"
    by (simp add: hey_codec)
  have before: "\<forall>j < 0 :: nat. \<exists>d. load_file hey_lib (file_at hey_dir (''.quache-test/'', j)) = Inr d"
    by simp
  have l: "16 < length hey_body" by (simp add: hey_body_def)
  have l': "43 < length (snapshot hey_body)" by (simp add: snapshot_def hey_body_def)
  have md: "md5_Sum (hey_body[16 := CHR ''2'']) \<noteq> md5_Sum hey_body"
    by (simp add: md5_hey_body md5_hey_body_flipped)
  have after: "\<forall>j < nat 2. 0 < j \<longrightarrow>
      (\<exists>d. load_file hey_lib (file_at hey_dir (''.quache-test/'', j)) = Inr d)"
    by (auto simp: less_Suc_eq numeral_2_eq_2)
  from snapshot_integrity [OF i fl ne m hey_body_shape before]
  show ?thesis
    using i fl ne hey_codec hey_body_shape l l' md after
    by (auto simp del: length_greater_0_conv)
qed

subsection \<open>Change detection in ToDisk\<close>

text \<open>
  C7. \<open>ToDisk\<close> leaves the file of every shard whose length equals its recorded size as
  it was. So a \<open>ToDisk\<close> right after one that returned no error changes neither the
  store nor the directory; and neither does a \<open>ToDisk\<close> after a \<open>Put\<close> of a key that was
  already there: the new value is in the store and not on disk.
\<close>

theorem todisk_skips_unchanged:
  "(dimension kv i = getLength (Shards kv ! i) \<longrightarrow>
      file_at (snd (snd (ToDisk lib kv fs))) (Directory kv, i) = file_at fs (Directory kv, i))
   \<and> (ToDisk lib kv fs = (None, kv1, fs1) \<longrightarrow> ToDisk lib kv1 fs1 = (None, kv1, fs1))
   \<and> (ToDisk lib kv fs = (None, kv1, fs1) \<and> stored kv1 k = Some e
        \<and> Put now k v ttl kv1 = Inr kv2 \<longrightarrow>
          ToDisk lib kv2 fs1 = (None, kv2, fs1) \<and> map_option Value (stored kv2 k) = Some v)"
proof (intro conjI impI)
  assume "dimension kv i = getLength (Shards kv ! i)"
  then show "file_at (snd (snd (ToDisk lib kv fs))) (Directory kv, i) = file_at fs (Directory kv, i)"
    by (simp add: ToDisk_untouched)
next
  assume a: "ToDisk lib kv fs = (None, kv1, fs1)"
  then have "\<forall>j < length (Shards kv1). dimension kv1 j = getLength (Shards kv1 ! j)"
    using ToDisk_dimension [OF a] ToDisk_result [OF a] by simp
  then show "ToDisk lib kv1 fs1 = (None, kv1, fs1)" by (rule ToDisk_skips)
next
  assume a: "ToDisk lib kv fs = (None, kv1, fs1) \<and> stored kv1 k = Some e
        \<and> Put now k v ttl kv1 = Inr kv2"
  then have t: "ToDisk lib kv fs = (None, kv1, fs1)" and s: "stored kv1 k = Some e"
    and p: "Put now k v ttl kv1 = Inr kv2" by simp_all
  have d: "\<forall>j < length (Shards kv1). dimension kv1 j = getLength (Shards kv1 ! j)"
    using ToDisk_dimension [OF t] ToDisk_result [OF t] by simp
  have "\<forall>j < length (Shards kv2). dimension kv2 j = getLength (Shards kv2 ! j)"
    using d getLength_Put_present [OF s p] Put_frame [OF p] Put_length [OF p]
    by (simp add: dimension_def)
  then show "ToDisk lib kv2 fs1 = (None, kv2, fs1)" by (rule ToDisk_skips)
  show "map_option Value (stored kv2 k) = Some v"
    using stored_Put_same [OF p] by (simp add: NewShardEntry_def)
qed

theorem todisk_skips_unchanged_witness:
  "\<exists>kv2.
     dimension hey_store 1 = getLength (Shards hey_store ! 1)
   \<and> file_at (snd (snd (ToDisk hey_lib hey_store empty_dir))) (Directory hey_store, 1)
       = file_at empty_dir (Directory hey_store, 1)
   \<and> ToDisk hey_lib hey_store empty_dir = (None, hey_flushed, hey_dir)
   \<and> ToDisk hey_lib hey_flushed hey_dir = (None, hey_flushed, hey_dir)
   \<and> stored hey_flushed ''hey'' = Some hey_entry
   \<and> Put 9 ''hey'' (GoInt 2) None hey_flushed = Inr kv2
   \<and> ToDisk hey_lib kv2 hey_dir = (None, kv2, hey_dir)
   \<and> map_option Value (stored kv2 ''hey'') = Some (GoInt 2)"
proof -
  have "length (Shards hey_flushed) \<noteq> 0" by (simp add: hey_flushed_def)
  then obtain kv2 where p: "Put 9 ''hey'' (GoInt 2) None hey_flushed = Inr kv2"
    using Put_succeeds [of hey_flushed 9 "''hey''" "GoInt 2" None] by blast
  have d: "dimension hey_store 1 = getLength (Shards hey_store ! 1)" by simp
  from todisk_skips_unchanged
    [of hey_store 1 hey_lib empty_dir hey_flushed hey_dir "''hey''" hey_entry 9 "GoInt 2" None kv2]
    d ToDisk_hey stored_hey_flushed p
  show ?thesis by blast
qed



text \<open>
  C8. \<open>ToDisk\<close> records the new size of a shard before it flushes it and keeps it when
  the flush fails. On the example store with a directory that refuses the write, the
  pass returns the error with the size of shard 0 already set to 1 and no file written;
  the next pass, on a directory that accepts writes, finds the size equal to the length,
  skips the shard and returns no error: the entry is never written.
\<close>

theorem failed_flush_keeps_new_size:
  "ToDisk hey_lib hey_store readonly_dir
     = (Some (ExternalError ''read-only file system''), hey_flushed, readonly_dir)
   \<and> dimension hey_store 0 = 0 \<and> dimension hey_flushed 0 = 1
   \<and> file_at readonly_dir (''.quache-test/'', 0) = NotExist
   \<and> ToDisk hey_lib hey_flushed empty_dir = (None, hey_flushed, empty_dir)
   \<and> file_at empty_dir (''.quache-test/'', 0) = NotExist"
proof -
  have "ToDisk hey_lib hey_store readonly_dir
     = (Some (ExternalError ''read-only file system''), hey_flushed, readonly_dir)"
    by (simp add: ToDisk_def upt_eval numeral_2_eq_2 Let_def hey_store_def two_shards_def
        dimension_def Flush_def hey_lib_def os_WriteFile_def readonly_dir_def empty_dir_def
        hey_flushed_def)
  moreover have "dimension hey_flushed 0 = 1"
    by (simp add: hey_flushed_def dimension_def)
  moreover have "ToDisk hey_lib hey_flushed empty_dir = (None, hey_flushed, empty_dir)"
    by (rule ToDisk_skips)
      (auto simp: hey_flushed_def hey_store_def two_shards_def dimension_def less_Suc_eq)
  ultimately show ?thesis
    by (simp add: readonly_dir_def empty_dir_def)
qed

end
